theory Spec2Isabelle
  imports Main "HOL-Library.Word" "HOL-Library.Multiset"
begin

section \<open>Data model\<close>

text \<open>
  The manager of \<^verbatim>\<open>src/lib/iomgr.cpp\<close> is embedded as a record that is passed
  through every operation and returned updated. Objects that the C++ code shares
  through pointers are kept in an explicit store: a descriptor record
  (\<^verbatim>\<open>std::shared_ptr<fd_info>\<close>) is an address into \<open>fd_heap\<close>, so that a write to
  a shared record is a visible update of that store.

  Plain C++ \<^verbatim>\<open>int\<close> values that are only stored and compared (descriptor numbers,
  priorities, event masks, thread numbers) are \<open>int\<close>; \<^verbatim>\<open>uint64_t m_count\<close> is a
  \<open>64 word\<close> and the \<^verbatim>\<open>uint32_t\<close> delivery count a \<open>32 word\<close>.
\<close>

datatype iomgr_state =
  waiting_for_interfaces | waiting_for_threads | running | stopping | stopped

text \<open>Position of a state in the progression of the lifecycle.\<close>

fun state_rank :: "iomgr_state \<Rightarrow> nat" where
  "state_rank waiting_for_interfaces = 0"
| "state_rank waiting_for_threads = 1"
| "state_rank running = 2"
| "state_rank stopping = 3"
| "state_rank stopped = 4"

text \<open>\<^verbatim>\<open>struct fd_info\<close>, with callbacks, cookies and interfaces as opaque handles.\<close>

record fd_info =
  cb :: nat
  is_processing_READ :: int
  is_processing_WRITE :: int
  fd :: int
  ev :: int
  is_global :: bool
  pri :: int
  cookie :: nat
  io_interface :: nat

text \<open>\<^verbatim>\<open>constexpr size_t MAX_PRI = 10\<close> of \<^verbatim>\<open>io_thread.hpp\<close>.\<close>

definition MAX_PRI :: int where
  "MAX_PRI = 10"

datatype iomgr_msg_type = RESCHEDULE | RUN_METHOD | RELINQUISH_IO_THREAD | WAKEUP

text \<open>
  Modelled from the spec: \<^verbatim>\<open>iomgr_msg\<close> (its header \<^verbatim>\<open>iomgr_msg.hpp\<close> is not part of
  the sources). A message carries a tag, an optional descriptor handle, an event
  mask and an opaque buffer with its size.
\<close>

record iomgr_msg =
  m_type :: iomgr_msg_type
  m_fd_info :: "nat option"
  m_event :: int
  m_data_buf :: "nat option"
  m_data_size :: nat

text \<open>
  Modelled from the spec: the constructor \<^verbatim>\<open>iomgr_msg(type)\<close> used by \<open>stop\<close>:
  no descriptor, no buffer.
\<close>

definition iomgr_msg_of_type :: "iomgr_msg_type \<Rightarrow> iomgr_msg" where
  "iomgr_msg_of_type t =
     \<lparr>m_type = t, m_fd_info = None, m_event = -1, m_data_buf = None, m_data_size = 0\<rparr>"

text \<open>
  \<^verbatim>\<open>class ioMgrThreadContext\<close> of \<^verbatim>\<open>io_thread.hpp\<close>. The epoll instance behind
  \<^verbatim>\<open>m_epollfd\<close> is the set \<open>m_epoll_set\<close> of descriptor records attached to it, and
  the kernel counter of the event descriptor of \<^verbatim>\<open>m_msg_fd_info\<close> is \<open>m_msg_fd_tokens\<close>.
\<close>

record ioMgrThreadContext =
  m_epoll_set :: "nat set"
  m_thread_num :: int
  m_msg_fd_info :: "nat option"
  m_msg_fd_tokens :: nat
  m_count :: "64 word"
  m_is_io_thread :: bool
  m_is_iomgr_thread :: bool
  m_keep_running :: bool
  m_fd_selector :: "(fd_info \<Rightarrow> bool) option"
  m_msg_q :: "iomgr_msg list"

text \<open>The result of one \<^verbatim>\<open>write(2)\<close> of a wakeup token.\<close>

datatype write_result = Written | Eagain | Failed

text \<open>An interface registered with the manager.\<close>

datatype io_iface = DefaultIOInterface | CustomIOInterface nat

text \<open>
  A thread spawned by the manager, recorded by the arguments of its
  \<^verbatim>\<open>run_io_loop(is_iomgr_thread, fd_selector, override_msg_handler)\<close>.
\<close>

record iomgr_thread =
  arg_is_iomgr_thread :: bool
  arg_fd_selector :: "(fd_info \<Rightarrow> bool) option"
  arg_msg_handler :: "nat option"

text \<open>
  \<^verbatim>\<open>class IOManager\<close>. The class declaration (\<^verbatim>\<open>iomgr.hpp\<close>) is not part of the
  sources; the fields are the members that \<^verbatim>\<open>iomgr.cpp\<close> reads and writes.
  \<open>m_thread_ctx\<close> is the per-thread buffer that \<^verbatim>\<open>access_all_threads\<close> walks, in its
  iteration order. \<open>kernel_write\<close> and \<open>kernel_clock\<close> stand for the operating
  system: the result of the \<open>n\<close>-th \<^verbatim>\<open>write\<close> of a wakeup token, and the number of
  such writes made so far.
\<close>

record IOManager =
  m_state :: iomgr_state
  m_expected_ifaces :: nat
  m_yet_to_start_nthreads :: int
  m_yet_to_stop_nthreads :: int
  m_iface_list :: "io_iface list"
  m_drive_ifaces :: "io_iface list"
  m_default_general_iface :: "io_iface option"
  m_default_drive_iface :: "io_iface option"
  m_common_thread_msg_handler :: "nat option"
  m_iomgr_threads :: "iomgr_thread list"
  m_global_timer :: "nat option"
  m_fd_info_map :: "int \<rightharpoonup> nat"
  m_thread_ctx :: "ioMgrThreadContext list"
  fd_heap :: "fd_info list"
  kernel_write :: "nat \<Rightarrow> write_result"
  kernel_clock :: nat

text \<open>
  Modelled from the spec: \<^verbatim>\<open>inbuilt_interface_count\<close>, a constant of the missing
  \<^verbatim>\<open>iomgr.hpp\<close>. The manager has one built-in interface, the default general one
  that \<open>start\<close> registers.
\<close>

definition inbuilt_interface_count :: nat where
  "inbuilt_interface_count = 1"

section \<open>Descriptor records\<close>

text \<open>Dereferencing a descriptor handle; a handle outside the store has no record.\<close>

definition fd_info_at :: "IOManager \<Rightarrow> nat \<Rightarrow> fd_info option" where
  "fd_info_at s a = (if a < length (fd_heap s) then Some (fd_heap s ! a) else None)"

text \<open>
  \<^verbatim>\<open>IOManager::create_fd_info\<close>: \<^verbatim>\<open>std::make_shared<fd_info>()\<close> allocates a new
  record at the end of the store, the assignments fill it, and its handle is
  returned.
\<close>

definition create_fd_info ::
  "nat \<Rightarrow> int \<Rightarrow> nat \<Rightarrow> int \<Rightarrow> int \<Rightarrow> nat \<Rightarrow> IOManager \<Rightarrow> nat \<times> IOManager" where
  "create_fd_info iface fdn cbk evm prio ck s =
     (let info = \<lparr>cb = cbk, is_processing_READ = 0, is_processing_WRITE = 0, fd = fdn,
                  ev = evm, is_global = False, pri = prio, cookie = ck,
                  io_interface = iface\<rparr>
      in (length (fd_heap s), s\<lparr>fd_heap := fd_heap s @ [info]\<rparr>))"

text \<open>
  \<^verbatim>\<open>IOManager::fd_to_info\<close>: the iterator returned by \<^verbatim>\<open>find\<close> is dereferenced
  without a comparison against \<^verbatim>\<open>end()\<close>. For a key that is not in the map the
  C++ behaviour is undefined, which is the result \<open>None\<close>.
\<close>

definition fd_to_info :: "IOManager \<Rightarrow> int \<Rightarrow> nat option" where
  "fd_to_info s fdn = (case m_fd_info_map s fdn of None \<Rightarrow> None | Some a \<Rightarrow> Some a)"

section \<open>Thread contexts\<close>

text \<open>
  Modelled from the spec: the member functions of \<^verbatim>\<open>ioMgrThreadContext\<close> that the
  manager calls. They are declared in \<^verbatim>\<open>io_thread.hpp\<close>; their bodies
  (\<^verbatim>\<open>io_thread.cpp\<close>) are not part of the sources. A thread accepts a record when
  it has no selector or its selector holds of the record; adding and removing a
  record changes the set of the multiplexer; \<open>put_msg\<close> enqueues at the end of the
  message queue (the spec gives no capacity for the queue, and none is modelled).
\<close>

definition is_io_thread :: "ioMgrThreadContext \<Rightarrow> bool" where
  "is_io_thread c = m_is_io_thread c"

definition is_fd_addable :: "ioMgrThreadContext \<Rightarrow> fd_info \<Rightarrow> bool" where
  "is_fd_addable c info = (case m_fd_selector c of None \<Rightarrow> True | Some sel \<Rightarrow> sel info)"

definition add_fd_to_thread :: "nat \<Rightarrow> ioMgrThreadContext \<Rightarrow> ioMgrThreadContext" where
  "add_fd_to_thread a c = c\<lparr>m_epoll_set := insert a (m_epoll_set c)\<rparr>"

definition remove_fd_from_thread :: "nat \<Rightarrow> ioMgrThreadContext \<Rightarrow> ioMgrThreadContext" where
  "remove_fd_from_thread a c = c\<lparr>m_epoll_set := m_epoll_set c - {a}\<rparr>"

definition put_msg :: "iomgr_msg \<Rightarrow> ioMgrThreadContext \<Rightarrow> ioMgrThreadContext" where
  "put_msg msg c = c\<lparr>m_msg_q := m_msg_q c @ [msg]\<rparr>"

text \<open>
  Modelled from the spec: the per-thread buffer behind \<^verbatim>\<open>m_thread_ctx\<close>, a class of
  a library outside the sources. \<^verbatim>\<open>access_all_threads\<close> applies the callback to
  every context in order; \<^verbatim>\<open>access_specific_thread\<close> applies it to the context of
  the given thread number, if there is one. The context of the calling thread
  (\<^verbatim>\<open>m_thread_ctx->\<close>) is the one with the caller's thread number.
\<close>

definition access_all_threads ::
  "(ioMgrThreadContext \<Rightarrow> ioMgrThreadContext) \<Rightarrow> ioMgrThreadContext list \<Rightarrow> ioMgrThreadContext list" where
  "access_all_threads f ts = map f ts"

fun access_specific_thread ::
  "int \<Rightarrow> (ioMgrThreadContext \<Rightarrow> ioMgrThreadContext) \<Rightarrow> ioMgrThreadContext list \<Rightarrow> ioMgrThreadContext list" where
  "access_specific_thread n f [] = []"
| "access_specific_thread n f (c # cs) =
     (if m_thread_num c = n then f c # cs else c # access_specific_thread n f cs)"

text \<open>
  Position \<open>i\<close> of the thread buffer holds the context of thread \<open>n\<close>: the entry that
  \<open>access_specific_thread\<close> reaches for that number.
\<close>

definition is_ctx_of :: "int \<Rightarrow> ioMgrThreadContext list \<Rightarrow> nat \<Rightarrow> bool" where
  "is_ctx_of n ts i \<longleftrightarrow>
     i < length ts \<and> m_thread_num (ts ! i) = n \<and> (\<forall>j<i. m_thread_num (ts ! j) \<noteq> n)"

section \<open>State and latches\<close>

text \<open>
  Modelled from the spec: \<^verbatim>\<open>set_state\<close>, \<^verbatim>\<open>set_state_and_notify\<close> and
  \<^verbatim>\<open>get_state\<close>, members of the missing \<^verbatim>\<open>iomgr.hpp\<close>. Both setters assign the
  state; the second also wakes the threads blocked on it, which the waits below
  account for.
\<close>

definition set_state :: "iomgr_state \<Rightarrow> IOManager \<Rightarrow> IOManager" where
  "set_state st s = s\<lparr>m_state := st\<rparr>"

definition set_state_and_notify :: "iomgr_state \<Rightarrow> IOManager \<Rightarrow> IOManager" where
  "set_state_and_notify st s = s\<lparr>m_state := st\<rparr>"

definition get_state :: "IOManager \<Rightarrow> iomgr_state" where
  "get_state s = m_state s"

text \<open>
  \<^verbatim>\<open>IOManager::add_interface\<close>. The loop \<^verbatim>\<open>for (auto i = 0; i < nthreads; i++)\<close>
  pushes one thread per iteration, each running
  \<^verbatim>\<open>run_io_loop(true, nullptr, nullptr)\<close>; for a counter that is not positive it
  pushes none.
\<close>

definition spawned_io_thread :: iomgr_thread where
  "spawned_io_thread =
     \<lparr>arg_is_iomgr_thread = True, arg_fd_selector = None, arg_msg_handler = None\<rparr>"

definition add_interface :: "io_iface \<Rightarrow> IOManager \<Rightarrow> IOManager" where
  "add_interface iface s =
     (let s1 = s\<lparr>m_iface_list := m_iface_list s @ [iface]\<rparr>;
          iface_count = length (m_iface_list s1)
      in if iface_count = m_expected_ifaces s1 then
           (let nthreads = m_yet_to_start_nthreads s1
            in if nthreads \<noteq> 0 then
                 (let s2 = set_state_and_notify waiting_for_threads s1
                  in s2\<lparr>m_iomgr_threads :=
                          m_iomgr_threads s2 @ replicate (nat nthreads) spawned_io_thread\<rparr>)
               else set_state_and_notify running s1)
         else s1)"

text \<open>\<^verbatim>\<open>IOManager::add_drive_interface\<close>.\<close>

definition add_drive_interface :: "io_iface \<Rightarrow> bool \<Rightarrow> IOManager \<Rightarrow> IOManager" where
  "add_drive_interface iface default_iface s =
     (let s1 = add_interface iface s;
          s2 = s1\<lparr>m_drive_ifaces := m_drive_ifaces s1 @ [iface]\<rparr>
      in if default_iface then s2\<lparr>m_default_drive_iface := Some iface\<rparr> else s2)"

text \<open>
  \<^verbatim>\<open>IOManager::start\<close>. \<^verbatim>\<open>m_expected_ifaces\<close> is a \<^verbatim>\<open>size_t\<close>, so the addition
  wraps at \<open>2 ^ 64\<close>.
\<close>

definition start :: "nat \<Rightarrow> nat \<Rightarrow> nat option \<Rightarrow> IOManager \<Rightarrow> IOManager" where
  "start expected_custom_ifaces num_threads handler s =
     (let s1 = s\<lparr>m_expected_ifaces :=
                    (m_expected_ifaces s + expected_custom_ifaces) mod 2 ^ 64\<rparr>;
          s2 = s1\<lparr>m_yet_to_start_nthreads := int num_threads\<rparr>;
          s3 = s2\<lparr>m_common_thread_msg_handler := handler\<rparr>;
          s4 = set_state waiting_for_interfaces s3;
          s5 = s4\<lparr>m_default_general_iface := Some DefaultIOInterface\<rparr>
      in add_interface DefaultIOInterface s5)"

text \<open>
  \<^verbatim>\<open>IOManager::io_thread_started\<close> and \<^verbatim>\<open>IOManager::io_thread_stopped\<close>.
  The two latches are atomic counters of a library outside the sources, integers
  here: \<^verbatim>\<open>increment\<close> adds one, and \<^verbatim>\<open>decrement_testz\<close> subtracts one and tells
  whether the counter became zero. In \<open>io_thread_started\<close> the \<^verbatim>\<open>&&\<close> makes the
  decrement run for manager threads only.
\<close>

definition io_thread_started :: "bool \<Rightarrow> IOManager \<Rightarrow> IOManager" where
  "io_thread_started is_iomgr_thread s =
     (let s1 = s\<lparr>m_yet_to_stop_nthreads := m_yet_to_stop_nthreads s + 1\<rparr>
      in if is_iomgr_thread then
           (let s2 = s1\<lparr>m_yet_to_start_nthreads := m_yet_to_start_nthreads s1 - 1\<rparr>
            in if m_yet_to_start_nthreads s2 = 0 then set_state_and_notify running s2 else s2)
         else s1)"

definition io_thread_stopped :: "IOManager \<Rightarrow> IOManager" where
  "io_thread_stopped s =
     (let s1 = s\<lparr>m_yet_to_stop_nthreads := m_yet_to_stop_nthreads s - 1\<rparr>
      in if m_yet_to_stop_nthreads s1 = 0 then set_state_and_notify stopped s1 else s1)"

section \<open>Blocking on the state\<close>

text \<open>
  A thread that blocks on the state is woken by what other threads do to the
  manager. Those actions are the environment of a call: a list of events, each an
  operation of the manager run by another thread.
\<close>

datatype env_event =
  Ev_io_thread_started bool | Ev_io_thread_stopped | Ev_add_interface io_iface
| Ev_thread_entered_loop int | Ev_thread_left_loop int

text \<open>
  Modelled from the spec: a thread that enters its event loop marks its context
  \<open>is_io_thread\<close>, and a thread that leaves the loop clears the mark
  (\<^verbatim>\<open>ioMgrThreadContext::run\<close> is not part of the sources).
\<close>

definition set_is_io_thread :: "bool \<Rightarrow> ioMgrThreadContext \<Rightarrow> ioMgrThreadContext" where
  "set_is_io_thread b c = c\<lparr>m_is_io_thread := b\<rparr>"

fun env_step :: "env_event \<Rightarrow> IOManager \<Rightarrow> IOManager" where
  "env_step (Ev_io_thread_started b) s = io_thread_started b s"
| "env_step Ev_io_thread_stopped s = io_thread_stopped s"
| "env_step (Ev_add_interface i) s = add_interface i s"
| "env_step (Ev_thread_entered_loop n) s =
     s\<lparr>m_thread_ctx := access_specific_thread n (set_is_io_thread True) (m_thread_ctx s)\<rparr>"
| "env_step (Ev_thread_left_loop n) s =
     s\<lparr>m_thread_ctx := access_specific_thread n (set_is_io_thread False) (m_thread_ctx s)\<rparr>"

fun run_env :: "env_event list \<Rightarrow> IOManager \<Rightarrow> IOManager" where
  "run_env [] s = s"
| "run_env (e # es) s = run_env es (env_step e s)"

text \<open>
  Modelled from the spec: \<^verbatim>\<open>wait_to_be_ready\<close> and \<^verbatim>\<open>wait_to_be_stopped\<close>, members
  of the missing \<^verbatim>\<open>iomgr.hpp\<close>. The caller blocks on the state condition until the
  state is the awaited one. When the environment has nothing left to do and the
  state is still another one, the caller stays blocked: the result is \<open>None\<close>.
\<close>

fun wait_for_state :: "iomgr_state \<Rightarrow> env_event list \<Rightarrow> IOManager \<Rightarrow> IOManager option" where
  "wait_for_state st [] s = (if m_state s = st then Some s else None)"
| "wait_for_state st (e # es) s =
     (if m_state s = st then Some s else wait_for_state st es (env_step e s))"

definition wait_to_be_ready :: "env_event list \<Rightarrow> IOManager \<Rightarrow> IOManager option" where
  "wait_to_be_ready env s = wait_for_state running env s"

definition wait_to_be_stopped :: "env_event list \<Rightarrow> IOManager \<Rightarrow> IOManager option" where
  "wait_to_be_stopped env s = wait_for_state stopped env s"

section \<open>Registering and removing descriptors\<close>

text \<open>\<^verbatim>\<open>insert\<close> of a standard map: a key that is already present keeps its entry.\<close>

definition map_insert :: "(int \<rightharpoonup> nat) \<Rightarrow> int \<Rightarrow> nat \<Rightarrow> (int \<rightharpoonup> nat)" where
  "map_insert m k v = (case m k of None \<Rightarrow> m(k \<mapsto> v) | Some _ \<Rightarrow> m)"

text \<open>The assignment \<^verbatim>\<open>finfo->is_global = b\<close> through a handle.\<close>

definition set_is_global :: "nat \<Rightarrow> bool \<Rightarrow> IOManager \<Rightarrow> IOManager" where
  "set_is_global a b s =
     s\<lparr>fd_heap := (fd_heap s)[a := (fd_heap s ! a)\<lparr>is_global := b\<rparr>]\<rparr>"

text \<open>
  \<^verbatim>\<open>IOManager::_add_fd\<close>, called by the thread numbered \<open>self\<close> with the
  environment \<open>env\<close> of a possible wait. The result is the handle of the new record
  and the new manager, or \<open>None\<close> when the call stays blocked in \<open>wait_to_be_ready\<close>.
\<close>

definition add_fd ::
  "env_event list \<Rightarrow> int \<Rightarrow> nat \<Rightarrow> int \<Rightarrow> nat \<Rightarrow> int \<Rightarrow> int \<Rightarrow> nat \<Rightarrow> bool \<Rightarrow> IOManager
     \<Rightarrow> (nat \<times> IOManager) option" where
  "add_fd env self iface fdn cbk iomgr_ev prio ck is_per_thread_fd s =
     (case (if \<not> is_per_thread_fd \<and> get_state s \<noteq> running
            then wait_to_be_ready env s else Some s) of
        None \<Rightarrow> None
      | Some s1 \<Rightarrow>
          (let (finfo, s2) = create_fd_info iface fdn cbk iomgr_ev prio ck s1;
               s3 = set_is_global finfo (\<not> is_per_thread_fd) s2;
               info = fd_heap s3 ! finfo
           in if is_per_thread_fd then
                Some (finfo,
                  s3\<lparr>m_thread_ctx :=
                       access_specific_thread self
                         (\<lambda>ctx. if is_fd_addable ctx info then add_fd_to_thread finfo ctx else ctx)
                         (m_thread_ctx s3)\<rparr>)
              else
                (let s4 = s3\<lparr>m_thread_ctx :=
                       access_all_threads
                         (\<lambda>ctx. if is_io_thread ctx \<and> is_fd_addable ctx info
                                then add_fd_to_thread finfo ctx else ctx)
                         (m_thread_ctx s3)\<rparr>
                 in Some (finfo,
                      s4\<lparr>m_fd_info_map := map_insert (m_fd_info_map s4) fdn finfo\<rparr>))))"

text \<open>
  \<^verbatim>\<open>IOManager::remove_fd\<close>, called by the thread numbered \<open>self\<close>. \<open>iomgr_ctx\<close> is
  the thread number of the context passed by pointer, \<open>None\<close> for \<^verbatim>\<open>nullptr\<close>.
  Outside \<open>running\<close> and \<open>stopping\<close> the call logs (\<^verbatim>\<open>LOGDFATAL\<close>, a macro of the
  logging library, taken to do no more than log) and returns. Reading
  \<^verbatim>\<open>info->is_global\<close> through a handle without a record is undefined: \<open>None\<close>.
\<close>

definition remove_fd :: "int \<Rightarrow> nat \<Rightarrow> nat \<Rightarrow> int option \<Rightarrow> IOManager \<Rightarrow> IOManager option" where
  "remove_fd self iface info iomgr_ctx s =
     (let st = get_state s
      in if st \<noteq> running \<and> st \<noteq> stopping then Some s
         else (case fd_info_at s info of
                 None \<Rightarrow> None
               | Some r \<Rightarrow>
                   if is_global r then
                     (let s1 = s\<lparr>m_thread_ctx :=
                            access_all_threads
                              (\<lambda>ctx. if is_io_thread ctx then remove_fd_from_thread info ctx else ctx)
                              (m_thread_ctx s)\<rparr>
                      in Some (s1\<lparr>m_fd_info_map := (m_fd_info_map s1)(fd r := None)\<rparr>))
                   else
                     Some (s\<lparr>m_thread_ctx :=
                            access_specific_thread
                              (case iomgr_ctx of Some n \<Rightarrow> n | None \<Rightarrow> self)
                              (remove_fd_from_thread info) (m_thread_ctx s)\<rparr>)))"

section \<open>Messages\<close>

text \<open>
  The loop \<^verbatim>\<open>while (0 > write(fd, &temp, sizeof(uint64_t)) && errno == EAGAIN);\<close>
  writes the 8-byte token again for as long as the kernel answers \<^verbatim>\<open>EAGAIN\<close>. The
  result is the answer that ended the loop and the clock after it; a kernel that
  answers \<^verbatim>\<open>EAGAIN\<close> for ever gives \<open>None\<close>.
\<close>

partial_function (option) write_wakeup_token ::
  "(nat \<Rightarrow> write_result) \<Rightarrow> nat \<Rightarrow> (write_result \<times> nat) option" where
  "write_wakeup_token k n =
     (if k n = Eagain then write_wakeup_token k (Suc n) else Some (k n, Suc n))"

text \<open>A token that was written adds one to the counter of the event descriptor.\<close>

definition token_written :: "write_result \<Rightarrow> ioMgrThreadContext \<Rightarrow> ioMgrThreadContext" where
  "token_written r c =
     (if r = Written then c\<lparr>m_msg_fd_tokens := m_msg_fd_tokens c + 1\<rparr> else c)"

text \<open>
  The callback that \<open>send_msg\<close> hands to the thread buffer, the same in both of its
  branches: skip a context without message descriptor or outside the io loop,
  else enqueue, write the token and count.
\<close>

definition send_msg_to_ctx ::
  "(nat \<Rightarrow> write_result) \<Rightarrow> iomgr_msg \<Rightarrow> ioMgrThreadContext \<Rightarrow> 32 word \<Rightarrow> nat
     \<Rightarrow> (ioMgrThreadContext \<times> 32 word \<times> nat) option" where
  "send_msg_to_ctx k msg ctx msg_sent_count n =
     (if m_msg_fd_info ctx = None \<or> \<not> m_is_io_thread ctx then Some (ctx, msg_sent_count, n)
      else (let ctx1 = put_msg msg ctx
            in case write_wakeup_token k n of
                 None \<Rightarrow> None
               | Some (r, n') \<Rightarrow> Some (token_written r ctx1, msg_sent_count + 1, n')))"

fun send_msg_all ::
  "(nat \<Rightarrow> write_result) \<Rightarrow> iomgr_msg \<Rightarrow> ioMgrThreadContext list \<Rightarrow> 32 word \<Rightarrow> nat
     \<Rightarrow> (ioMgrThreadContext list \<times> 32 word \<times> nat) option" where
  "send_msg_all k msg [] cnt n = Some ([], cnt, n)"
| "send_msg_all k msg (c # cs) cnt n =
     (case send_msg_to_ctx k msg c cnt n of
        None \<Rightarrow> None
      | Some (c', cnt', n') \<Rightarrow>
          (case send_msg_all k msg cs cnt' n' of
             None \<Rightarrow> None
           | Some (cs', cnt'', n'') \<Rightarrow> Some (c' # cs', cnt'', n'')))"

fun send_msg_specific ::
  "(nat \<Rightarrow> write_result) \<Rightarrow> int \<Rightarrow> iomgr_msg \<Rightarrow> ioMgrThreadContext list \<Rightarrow> 32 word \<Rightarrow> nat
     \<Rightarrow> (ioMgrThreadContext list \<times> 32 word \<times> nat) option" where
  "send_msg_specific k tn msg [] cnt n = Some ([], cnt, n)"
| "send_msg_specific k tn msg (c # cs) cnt n =
     (if m_thread_num c = tn then
        (case send_msg_to_ctx k msg c cnt n of
           None \<Rightarrow> None
         | Some (c', cnt', n') \<Rightarrow> Some (c' # cs, cnt', n'))
      else
        (case send_msg_specific k tn msg cs cnt n of
           None \<Rightarrow> None
         | Some (cs', cnt', n') \<Rightarrow> Some (c # cs', cnt', n')))"

text \<open>\<^verbatim>\<open>IOManager::send_msg\<close>.\<close>

definition send_msg :: "int \<Rightarrow> iomgr_msg \<Rightarrow> IOManager \<Rightarrow> (32 word \<times> IOManager) option" where
  "send_msg thread_num msg s =
     (case (if thread_num = -1
            then send_msg_all (kernel_write s) msg (m_thread_ctx s) 0 (kernel_clock s)
            else send_msg_specific (kernel_write s) thread_num msg (m_thread_ctx s) 0
                   (kernel_clock s)) of
        None \<Rightarrow> None
      | Some (ts, msg_sent_count, n) \<Rightarrow>
          Some (msg_sent_count, s\<lparr>m_thread_ctx := ts, kernel_clock := n\<rparr>))"

text \<open>
  \<^verbatim>\<open>IOManager::find_least_busy_thread_id\<close>: the callback keeps the running minimum
  in \<open>(min_id, min_cnt)\<close>, which starts at \<open>(0, UINTMAX_MAX)\<close>.
\<close>

definition least_busy_step ::
  "int \<times> 64 word \<Rightarrow> ioMgrThreadContext \<Rightarrow> int \<times> 64 word" where
  "least_busy_step acc ctx =
     (if \<not> is_io_thread ctx then acc
      else if m_count ctx < snd acc then (m_thread_num ctx, m_count ctx) else acc)"

definition UINTMAX_MAX :: "64 word" where
  "UINTMAX_MAX = - 1"

definition find_least_busy_thread_id :: "IOManager \<Rightarrow> int" where
  "find_least_busy_thread_id s = fst (foldl least_busy_step (0, UINTMAX_MAX) (m_thread_ctx s))"

text \<open>
  \<^verbatim>\<open>IOManager::send_to_least_busy_thread\<close>. Other threads may act between the
  selection and the send of an iteration: the schedule gives, for each iteration,
  the events before the selection and those between selection and send. After the
  schedule the environment is at rest; an attempt that fails then fails in every
  later iteration as well, and the loop does not return.
\<close>

fun send_to_least_busy_thread ::
  "(env_event list \<times> env_event list) list \<Rightarrow> iomgr_msg \<Rightarrow> IOManager \<Rightarrow> IOManager option" where
  "send_to_least_busy_thread [] msg s =
     (let min_id = find_least_busy_thread_id s
      in case send_msg min_id msg s of
           None \<Rightarrow> None
         | Some (cnt, s1) \<Rightarrow> if cnt = 1 then Some s1 else None)"
| "send_to_least_busy_thread ((before, between) # sched) msg s =
     (let s1 = run_env before s;
          min_id = find_least_busy_thread_id s1;
          s2 = run_env between s1
      in case send_msg min_id msg s2 of
           None \<Rightarrow> None
         | Some (cnt, s3) \<Rightarrow>
             if cnt = 1 then Some s3 else send_to_least_busy_thread sched msg s3)"

text \<open>
  \<^verbatim>\<open>IOManager::fd_reschedule\<close>, for a record and for a raw descriptor. The
  \<^verbatim>\<open>uint32_t\<close> event becomes the \<^verbatim>\<open>int\<close> event of the message.
\<close>

definition fd_reschedule ::
  "(env_event list \<times> env_event list) list \<Rightarrow> nat \<Rightarrow> 32 word \<Rightarrow> IOManager \<Rightarrow> IOManager option" where
  "fd_reschedule sched info event s =
     send_to_least_busy_thread sched
       \<lparr>m_type = RESCHEDULE, m_fd_info = Some info, m_event = sint event,
        m_data_buf = None, m_data_size = 0\<rparr> s"

definition fd_reschedule_fd ::
  "(env_event list \<times> env_event list) list \<Rightarrow> int \<Rightarrow> 32 word \<Rightarrow> IOManager \<Rightarrow> IOManager option" where
  "fd_reschedule_fd sched fdn event s =
     (case fd_to_info s fdn of
        None \<Rightarrow> None
      | Some info \<Rightarrow> fd_reschedule sched info event s)"

section \<open>Stopping\<close>

text \<open>
  \<^verbatim>\<open>IOManager::stop\<close>, in three parts: \<open>stop_begin\<close> sets the state and
  increments the counter, \<open>stop_latch\<close> broadcasts, drops the timer, decrements and
  tests, and \<open>stop\<close> joins and clears. \<open>env\<close> is the environment of the wait;
  \<open>joined\<close> tells whether every thread of \<^verbatim>\<open>m_iomgr_threads\<close> finishes, so that the
  \<^verbatim>\<open>join\<close> loop returns (over an empty list it always does).
\<close>

definition stop_begin :: "IOManager \<Rightarrow> IOManager" where
  "stop_begin s =
     (let s1 = set_state stopping s
      in s1\<lparr>m_yet_to_stop_nthreads := m_yet_to_stop_nthreads s1 + 1\<rparr>)"

definition stop_latch :: "env_event list \<Rightarrow> IOManager \<Rightarrow> IOManager option" where
  "stop_latch env s =
     (let s2 = stop_begin s
      in case send_msg (-1) (iomgr_msg_of_type RELINQUISH_IO_THREAD) s2 of
           None \<Rightarrow> None
         | Some (cnt, s3) \<Rightarrow>
             (let s4 = s3\<lparr>m_global_timer := None\<rparr>;
                  s5 = s4\<lparr>m_yet_to_stop_nthreads := m_yet_to_stop_nthreads s4 - 1\<rparr>
              in if m_yet_to_stop_nthreads s5 = 0 then Some (set_state stopped s5)
                 else wait_to_be_stopped env s5))"

definition stop :: "env_event list \<Rightarrow> bool \<Rightarrow> IOManager \<Rightarrow> IOManager option" where
  "stop env joined s =
     (case stop_latch env s of
        None \<Rightarrow> None
      | Some s6 \<Rightarrow>
          if m_iomgr_threads s6 = [] \<or> joined then
            Some (s6\<lparr>m_iomgr_threads := [], m_yet_to_start_nthreads := 0,
                     m_expected_ifaces := inbuilt_interface_count,
                     m_drive_ifaces := [], m_iface_list := []\<rparr>)
          else None)"

section \<open>The per-thread submission context of the drive interface\<close>



text \<open>
  \<^verbatim>\<open>struct iocb_info\<close>: the fields a submission fills in. A control block is named
  by a number; \<open>ctrl_block\<close> is the block together with its content.
\<close>

record iocb_info =
  is_read :: bool
  io_size :: "32 word"
  io_offset :: "64 word"
  io_fd :: int
  io_cookie :: nat

type_synonym ctrl_block = "nat \<times> iocb_info"

text \<open>
  \<^verbatim>\<open>struct aio_thread_context\<close>: \<open>iocb_list\<close> is the free stack, top first, and
  \<open>ioctx\<close> is the kernel side of \<^verbatim>\<open>io_context_t\<close>, the control blocks in flight.
  The counters are those of \<^verbatim>\<open>AioDriveInterfaceMetrics\<close>, and \<open>completions\<close> lists
  the calls of the completion callback as (cookie, result).
\<close>

record aio_thread_context =
  ev_fd :: int
  ioctx :: "ctrl_block list"
  iocb_list :: "nat list"
  ev_fd_info :: "nat option"
  spurious_events :: nat
  write_io_submission_errors :: nat
  read_io_submission_errors :: nat
  force_sync_io_empty_iocb :: nat
  force_sync_io_eagain_error :: nat
  sync_write_count :: nat
  sync_read_count :: nat
  completions :: "(nat \<times> int) list"



text \<open>
  Modelled from the spec: the synchronous operations, a positional read or write
  that bumps the counter of its direction. \<open>res\<close> is the byte count the system call
  returns.
\<close>

definition sync_io :: "bool \<Rightarrow> aio_thread_context \<Rightarrow> aio_thread_context" where
  "sync_io rd c =
     (if rd then c\<lparr>sync_read_count := sync_read_count c + 1\<rparr>
      else c\<lparr>sync_write_count := sync_write_count c + 1\<rparr>)"



fun reap ::
  "nat \<Rightarrow> (nat \<Rightarrow> int option) \<Rightarrow> ctrl_block list \<Rightarrow> (ctrl_block \<times> int) list \<times> ctrl_block list" where
  "reap 0 finished blks = ([], blks)"
| "reap (Suc n) finished [] = ([], [])"
| "reap (Suc n) finished (blk # blks) =
     (case finished (fst blk) of
        None \<Rightarrow> (let (evs, rest) = reap (Suc n) finished blks in (evs, blk # rest))
      | Some res \<Rightarrow> (let (evs, rest) = reap n finished blks in ((blk, res) # evs, rest)))"





text \<open>
  A context that \<open>send_msg\<close> does not skip: it has a message descriptor and is in the
  io loop. \<open>msg_target tn ts i\<close> says that position \<open>i\<close> of the buffer is a thread that
  \<open>send_msg tn\<close> delivers to, and \<open>msg_target_count\<close> counts those positions.
\<close>

definition msg_deliverable :: "ioMgrThreadContext \<Rightarrow> bool" where
  "msg_deliverable c \<longleftrightarrow> m_msg_fd_info c \<noteq> None \<and> m_is_io_thread c"

definition msg_target :: "int \<Rightarrow> ioMgrThreadContext list \<Rightarrow> nat \<Rightarrow> bool" where
  "msg_target tn ts i \<longleftrightarrow>
     i < length ts \<and> (tn = -1 \<or> is_ctx_of tn ts i) \<and> msg_deliverable (ts ! i)"

definition msg_target_count :: "int \<Rightarrow> ioMgrThreadContext list \<Rightarrow> nat" where
  "msg_target_count tn ts = length (filter (msg_target tn ts) [0..<length ts])"

text \<open>
  The writes between two readings of the kernel clock that did not end in
  \<^verbatim>\<open>EAGAIN\<close>.
\<close>

definition completed_writes :: "(nat \<Rightarrow> write_result) \<Rightarrow> nat \<Rightarrow> nat \<Rightarrow> nat" where
  "completed_writes k n n' = length (filter (\<lambda>j. k j \<noteq> Eagain) [n..<n'])"

text \<open>
  The answers of the kernel, in order, to the writes between two readings of the
  clock that did not end in \<^verbatim>\<open>EAGAIN\<close>; and the number of threads that
  \<open>send_msg tn\<close> delivers to before it comes to position \<open>i\<close> of the buffer.
\<close>

definition completed_answers :: "(nat \<Rightarrow> write_result) \<Rightarrow> nat \<Rightarrow> nat \<Rightarrow> write_result list" where
  "completed_answers k n n' = map k (filter (\<lambda>j. k j \<noteq> Eagain) [n..<n'])"

definition msg_target_rank :: "int \<Rightarrow> ioMgrThreadContext list \<Rightarrow> nat \<Rightarrow> nat" where
  "msg_target_rank tn ts i = length (filter (msg_target tn ts) [0..<i])"

section \<open>Runs of the manager\<close>

text \<open>
  The operations of \<^verbatim>\<open>iomgr.cpp\<close> as values, so that a property can be stated
  for every sequence of calls. A call that does not return ends the run with
  \<open>None\<close>.
\<close>

type_synonym schedule = "(env_event list \<times> env_event list) list"

datatype iomgr_op =
  Op_start nat nat "nat option"
| Op_stop "env_event list" bool
| Op_add_interface io_iface
| Op_add_drive_interface io_iface bool
| Op_io_thread_started bool
| Op_io_thread_stopped
| Op_add_fd "env_event list" int nat int nat int int nat bool
| Op_remove_fd int nat nat "int option"
| Op_fd_reschedule schedule nat "32 word"
| Op_fd_reschedule_fd schedule int "32 word"
| Op_send_msg int iomgr_msg
| Op_send_to_least_busy_thread schedule iomgr_msg
| Op_env env_event

fun iomgr_step :: "iomgr_op \<Rightarrow> IOManager \<Rightarrow> IOManager option" where
  "iomgr_step (Op_start n k h) s = Some (start n k h s)"
| "iomgr_step (Op_stop env joined) s = stop env joined s"
| "iomgr_step (Op_add_interface i) s = Some (add_interface i s)"
| "iomgr_step (Op_add_drive_interface i d) s = Some (add_drive_interface i d s)"
| "iomgr_step (Op_io_thread_started b) s = Some (io_thread_started b s)"
| "iomgr_step Op_io_thread_stopped s = Some (io_thread_stopped s)"
| "iomgr_step (Op_add_fd env self iface fdn cbk evm prio ck b) s =
     map_option snd (add_fd env self iface fdn cbk evm prio ck b s)"
| "iomgr_step (Op_remove_fd self iface info ctx) s = remove_fd self iface info ctx s"
| "iomgr_step (Op_fd_reschedule sched info event) s = fd_reschedule sched info event s"
| "iomgr_step (Op_fd_reschedule_fd sched fdn event) s = fd_reschedule_fd sched fdn event s"
| "iomgr_step (Op_send_msg n msg) s = map_option snd (send_msg n msg s)"
| "iomgr_step (Op_send_to_least_busy_thread sched msg) s =
     send_to_least_busy_thread sched msg s"
| "iomgr_step (Op_env e) s = Some (env_step e s)"

fun iomgr_run :: "iomgr_op list \<Rightarrow> IOManager \<Rightarrow> IOManager option" where
  "iomgr_run [] s = Some s"
| "iomgr_run (x # xs) s =
     (case iomgr_step x s of None \<Rightarrow> None | Some s1 \<Rightarrow> iomgr_run xs s1)"




text \<open>The record behind the handle that a call of \<open>add_fd\<close> or \<open>create_fd_info\<close> returns.\<close>

definition created_record :: "(nat \<times> IOManager) option \<Rightarrow> fd_info option" where
  "created_record res = (case res of None \<Rightarrow> None | Some (a, s) \<Rightarrow> fd_info_at s a)"

text \<open>
  The iterations of \<open>send_to_least_busy_thread\<close> under a schedule, counted from 0.
  An attempt that delivers to nobody leaves the manager as it was, so before
  iteration \<open>m\<close> the manager has seen the events of the first \<open>m\<close> entries of the
  schedule and nothing else: \<open>iteration_select\<close> is the manager at the selection of
  iteration \<open>m\<close>, \<open>iteration_send\<close> the manager at its send, and \<open>attempt\<close> the result
  of its \<open>send_msg\<close>. From iteration \<open>length sched\<close> on the environment is at rest.
\<close>

definition schedule_env :: "schedule \<Rightarrow> env_event list" where
  "schedule_env sched = concat (map (\<lambda>(before, between). before @ between) sched)"

definition iteration_select :: "schedule \<Rightarrow> IOManager \<Rightarrow> nat \<Rightarrow> IOManager" where
  "iteration_select sched s m =
     run_env (if m < length sched then fst (sched ! m) else [])
       (run_env (schedule_env (take m sched)) s)"

definition iteration_send :: "schedule \<Rightarrow> IOManager \<Rightarrow> nat \<Rightarrow> IOManager" where
  "iteration_send sched s m =
     run_env (if m < length sched then snd (sched ! m) else []) (iteration_select sched s m)"

definition attempt ::
  "schedule \<Rightarrow> iomgr_msg \<Rightarrow> IOManager \<Rightarrow> nat \<Rightarrow> (32 word \<times> IOManager) option" where
  "attempt sched msg s m =
     send_msg (find_least_busy_thread_id (iteration_select sched s m)) msg
       (iteration_send sched s m)"

text \<open>
  The managers that a sequence of \<open>add_interface\<close> calls goes through, the first
  being the one it starts from; and the managers in which the expected interface
  count cannot be reached from below any more or has not been reached yet.
\<close>

fun registration_states :: "io_iface list \<Rightarrow> IOManager \<Rightarrow> IOManager list" where
  "registration_states [] s = [s]"
| "registration_states (i # ifs) s = s # registration_states ifs (add_interface i s)"

definition registration_inv :: "IOManager \<Rightarrow> bool" where
  "registration_inv s \<longleftrightarrow>
     m_state s = waiting_for_interfaces \<or> m_expected_ifaces s \<le> length (m_iface_list s)"

section \<open>Example configurations\<close>

text \<open>Concrete values at which the theorems below are instantiated.\<close>

text \<open>A manager before \<open>start\<close>, on a kernel that takes every token at once.\<close>

definition example_iomgr :: IOManager where
  "example_iomgr =
     \<lparr>m_state = waiting_for_interfaces, m_expected_ifaces = inbuilt_interface_count,
      m_yet_to_start_nthreads = 0, m_yet_to_stop_nthreads = 0, m_iface_list = [],
      m_drive_ifaces = [], m_default_general_iface = None, m_default_drive_iface = None,
      m_common_thread_msg_handler = None, m_iomgr_threads = [], m_global_timer = None,
      m_fd_info_map = Map.empty, m_thread_ctx = [], fd_heap = [],
      kernel_write = (\<lambda>n. Written), kernel_clock = 0\<rparr>"

text \<open>The context of the thread numbered \<open>n\<close> with \<open>k\<close> operations, in or out of the loop.\<close>

definition example_ctx :: "int \<Rightarrow> 64 word \<Rightarrow> bool \<Rightarrow> ioMgrThreadContext" where
  "example_ctx n k io =
     \<lparr>m_epoll_set = {}, m_thread_num = n, m_msg_fd_info = Some 0, m_msg_fd_tokens = 0,
      m_count = k, m_is_io_thread = io, m_is_iomgr_thread = False, m_keep_running = True,
      m_fd_selector = None, m_msg_q = []\<rparr>"


text \<open>
  Two threads, one in its loop; a manager waiting for its last thread; a manager
  with one global record attached to the io thread, and one with a per-thread record.
\<close>

definition example_threads :: "ioMgrThreadContext list" where
  "example_threads = [example_ctx 0 100 True, example_ctx 1 10 False]"

definition example_waiting :: IOManager where
  "example_waiting =
     example_iomgr\<lparr>m_state := waiting_for_threads, m_yet_to_start_nthreads := 1,
                   m_thread_ctx := example_threads\<rparr>"

definition example_record :: fd_info where
  "example_record =
     \<lparr>cb = 0, is_processing_READ = 0, is_processing_WRITE = 0, fd = 5, ev = 1,
      is_global = True, pri = 9, cookie = 0, io_interface = 0\<rparr>"

definition example_registered :: IOManager where
  "example_registered =
     example_iomgr\<lparr>m_state := running,
                   m_thread_ctx := [add_fd_to_thread 0 (example_ctx 0 100 True),
                                    example_ctx 1 10 False],
                   fd_heap := [example_record],
                   m_fd_info_map := [5 \<mapsto> 0]\<rparr>"

definition example_per_thread :: IOManager where
  "example_per_thread =
     example_registered\<lparr>fd_heap := [example_record\<lparr>is_global := False\<rparr>],
                        m_fd_info_map := Map.empty\<rparr>"

text \<open>A manager whose kernel answers \<^verbatim>\<open>EAGAIN\<close> to the first two writes.\<close>

definition example_busy :: IOManager where
  "example_busy =
     example_iomgr\<lparr>m_thread_ctx := [example_ctx 0 100 True, example_ctx 1 10 False],
                   kernel_write := (\<lambda>n. if n < 2 then Eagain else Written)\<rparr>"

text \<open>Two io threads of different load, and a manager whose only thread is outside the loop.\<close>

definition example_two :: IOManager where
  "example_two = example_iomgr\<lparr>m_thread_ctx := [example_ctx 0 100 True, example_ctx 1 10 True]\<rparr>"

definition example_idle :: IOManager where
  "example_idle = example_iomgr\<lparr>m_thread_ctx := [example_ctx 0 5 False]\<rparr>"


text \<open>A manager that expects one more interface and is to start three threads.\<close>

definition example_expecting :: IOManager where
  "example_expecting =
     example_iomgr\<lparr>m_expected_ifaces := 2, m_yet_to_start_nthreads := 3,
                   m_iface_list := [DefaultIOInterface]\<rparr>"

section \<open>Control blocks of the submission context\<close>

lemma sync_io_fields [simp]:
  "iocb_list (sync_io rd c) = iocb_list c" "ioctx (sync_io rd c) = ioctx c"
  "completions (sync_io rd c) = completions c"
  "force_sync_io_empty_iocb (sync_io rd c) = force_sync_io_empty_iocb c"
  "read_io_submission_errors (sync_io rd c) = read_io_submission_errors c"
  "write_io_submission_errors (sync_io rd c) = write_io_submission_errors c"
  "force_sync_io_eagain_error (sync_io rd c) = force_sync_io_eagain_error c"
  by (simp_all add: sync_io_def)






lemma reap_length: "reap n finished blks = (evs, rest) \<Longrightarrow> length evs \<le> n"
proof (induction n finished blks arbitrary: evs rest rule: reap.induct)
  case (3 n finished blk blks)
  show ?case
  proof (cases "finished (fst blk)")
    case None
    obtain evs' rest' where r: "reap (Suc n) finished blks = (evs', rest')" by fastforce
    with None "3.prems" have "evs = evs'" by simp
    with "3.IH"(1)[OF None r] show ?thesis by simp
  next
    case (Some res)
    obtain evs' rest' where r: "reap n finished blks = (evs', rest')" by fastforce
    with Some "3.prems" have "evs = (blk, res) # evs'" by simp
    with "3.IH"(2)[OF Some r] show ?thesis by simp
  qed
qed simp_all












section \<open>Waiting, thread buffer and frame lemmas\<close>

lemma wait_for_state_Some: "wait_for_state st env s = Some s' \<Longrightarrow> m_state s' = st"
  by (induction env arbitrary: s) (auto split: if_splits)


lemma wait_for_state_None:
  "wait_for_state st env s = None \<longleftrightarrow> (\<forall>n\<le>length env. m_state (run_env (take n env) s) \<noteq> st)"
proof (induction env arbitrary: s)
  case Nil
  then show ?case by simp
next
  case (Cons e es)
  show ?case
  proof (cases "m_state s = st")
    case True
    then have "m_state (run_env (take 0 (e # es)) s) = st" by simp
    with True show ?thesis by (metis wait_for_state.simps(2) option.distinct(1) le0)
  next
    case False
    have "(\<forall>n\<le>length (e # es). m_state (run_env (take n (e # es)) s) \<noteq> st)
       \<longleftrightarrow> (\<forall>n\<le>length es. m_state (run_env (take n es) (env_step e s)) \<noteq> st)"
    proof
      assume a: "\<forall>n\<le>length (e # es). m_state (run_env (take n (e # es)) s) \<noteq> st"
      show "\<forall>n\<le>length es. m_state (run_env (take n es) (env_step e s)) \<noteq> st"
      proof (intro allI impI)
        fix n assume "n \<le> length es"
        then have "Suc n \<le> length (e # es)" by simp
        with a have "m_state (run_env (take (Suc n) (e # es)) s) \<noteq> st" by blast
        then show "m_state (run_env (take n es) (env_step e s)) \<noteq> st" by simp
      qed
    next
      assume a: "\<forall>n\<le>length es. m_state (run_env (take n es) (env_step e s)) \<noteq> st"
      show "\<forall>n\<le>length (e # es). m_state (run_env (take n (e # es)) s) \<noteq> st"
      proof (intro allI impI)
        fix n assume n: "n \<le> length (e # es)"
        show "m_state (run_env (take n (e # es)) s) \<noteq> st"
        proof (cases n)
          case 0
          with False show ?thesis by simp
        next
          case (Suc k)
          with n a show ?thesis by simp
        qed
      qed
    qed
    with False Cons.IH[of "env_step e s"] show ?thesis by simp
  qed
qed

lemma wait_for_state_first:
  "wait_for_state st env s = Some s' \<Longrightarrow>
     \<exists>n\<le>length env. s' = run_env (take n env) s
        \<and> (\<forall>m<n. m_state (run_env (take m env) s) \<noteq> st)"
proof (induction env arbitrary: s)
  case Nil
  then show ?case by (auto split: if_splits)
next
  case (Cons e es)
  show ?case
  proof (cases "m_state s = st")
    case True
    with Cons.prems have "s' = run_env (take 0 (e # es)) s" by simp
    then have "0 \<le> length (e # es) \<and> s' = run_env (take 0 (e # es)) s
        \<and> (\<forall>m<0. m_state (run_env (take m (e # es)) s) \<noteq> st)"
      by simp
    then show ?thesis by (rule exI[of _ 0])
  next
    case False
    with Cons.prems have "wait_for_state st es (env_step e s) = Some s'" by simp
    from Cons.IH[OF this] obtain n where n: "n \<le> length es"
      "s' = run_env (take n es) (env_step e s)"
      "\<forall>m<n. m_state (run_env (take m es) (env_step e s)) \<noteq> st"
      by blast
    have "\<forall>m<Suc n. m_state (run_env (take m (e # es)) s) \<noteq> st"
    proof (intro allI impI)
      fix m assume m: "m < Suc n"
      show "m_state (run_env (take m (e # es)) s) \<noteq> st"
      proof (cases m)
        case 0
        with False show ?thesis by simp
      next
        case (Suc j)
        with m n(3) show ?thesis by simp
      qed
    qed
    with n have "Suc n \<le> length (e # es) \<and> s' = run_env (take (Suc n) (e # es)) s
        \<and> (\<forall>m<Suc n. m_state (run_env (take m (e # es)) s) \<noteq> st)"
      by simp
    then show ?thesis by (rule exI[of _ "Suc n"])
  qed
qed

lemma access_specific_thread_length [simp]:
  "length (access_specific_thread n f ts) = length ts"
  by (induction ts) auto

lemma access_specific_thread_other:
  "i < length ts \<Longrightarrow> m_thread_num (ts ! i) \<noteq> n \<Longrightarrow> access_specific_thread n f ts ! i = ts ! i"
proof (induction ts arbitrary: i)
  case Nil
  then show ?case by simp
next
  case (Cons c cs)
  then show ?case by (cases i) auto
qed

lemma add_fd_unfold:
  "add_fd env self iface fdn cbk evm prio ck b s =
     (case (if \<not> b \<and> m_state s \<noteq> running then wait_to_be_ready env s else Some s) of
        None \<Rightarrow> None
      | Some s1 \<Rightarrow>
          (let a = length (fd_heap s1);
               r = \<lparr>cb = cbk, is_processing_READ = 0, is_processing_WRITE = 0, fd = fdn,
                    ev = evm, is_global = \<not> b, pri = prio, cookie = ck, io_interface = iface\<rparr>
           in Some (a,
                s1\<lparr>fd_heap := fd_heap s1 @ [r],
                   m_thread_ctx :=
                     (if b then
                        access_specific_thread self
                          (\<lambda>ctx. if is_fd_addable ctx r then add_fd_to_thread a ctx else ctx)
                          (m_thread_ctx s1)
                      else
                        map (\<lambda>ctx. if m_is_io_thread ctx \<and> is_fd_addable ctx r
                                   then add_fd_to_thread a ctx else ctx)
                          (m_thread_ctx s1)),
                   m_fd_info_map :=
                     (if b then m_fd_info_map s1 else map_insert (m_fd_info_map s1) fdn a)\<rparr>)))"
  by (simp add: add_fd_def create_fd_info_def set_is_global_def Let_def get_state_def
        access_all_threads_def is_io_thread_def split: option.splits)

lemma add_interface_frame [simp]:
  "fd_heap (add_interface i s) = fd_heap s"
  "m_fd_info_map (add_interface i s) = m_fd_info_map s"
  "m_thread_ctx (add_interface i s) = m_thread_ctx s"
  "kernel_write (add_interface i s) = kernel_write s"
  "kernel_clock (add_interface i s) = kernel_clock s"
  by (simp_all add: add_interface_def Let_def set_state_and_notify_def)

lemma io_thread_started_frame [simp]:
  "fd_heap (io_thread_started b s) = fd_heap s"
  "m_fd_info_map (io_thread_started b s) = m_fd_info_map s"
  "m_thread_ctx (io_thread_started b s) = m_thread_ctx s"
  by (simp_all add: io_thread_started_def Let_def set_state_and_notify_def)

lemma io_thread_stopped_frame [simp]:
  "fd_heap (io_thread_stopped s) = fd_heap s"
  "m_fd_info_map (io_thread_stopped s) = m_fd_info_map s"
  "m_thread_ctx (io_thread_stopped s) = m_thread_ctx s"
  by (simp_all add: io_thread_stopped_def Let_def set_state_and_notify_def)

lemma env_step_frame [simp]:
  "fd_heap (env_step e s) = fd_heap s"
  "m_fd_info_map (env_step e s) = m_fd_info_map s"
  by (cases e; simp)+

lemma run_env_frame [simp]:
  "fd_heap (run_env es s) = fd_heap s"
  "m_fd_info_map (run_env es s) = m_fd_info_map s"
  by (induction es arbitrary: s; simp)+

lemma wait_for_state_frame:
  "wait_for_state st env s = Some s' \<Longrightarrow> fd_heap s' = fd_heap s \<and> m_fd_info_map s' = m_fd_info_map s"
  by (induction env arbitrary: s) (auto split: if_splits)

lemma send_msg_frame:
  assumes "send_msg n msg s = Some (cnt, s')"
  shows "\<exists>ts k. s' = s\<lparr>m_thread_ctx := ts, kernel_clock := k\<rparr>"
  using assms by (auto simp: send_msg_def split: option.splits if_splits)

lemma send_msg_heap:
  assumes "send_msg n msg s = Some (cnt, s')"
  shows "fd_heap s' = fd_heap s \<and> m_fd_info_map s' = m_fd_info_map s"
  using send_msg_frame[OF assms] by auto

lemma send_to_least_busy_thread_frame:
  "send_to_least_busy_thread sched msg s = Some s' \<Longrightarrow>
     fd_heap s' = fd_heap s \<and> m_fd_info_map s' = m_fd_info_map s"
proof (induction sched arbitrary: s)
  case Nil
  then obtain cnt where "send_msg (find_least_busy_thread_id s) msg s = Some (cnt, s')"
    by (auto simp: Let_def split: option.splits if_splits)
  from send_msg_heap[OF this] show ?case .
next
  case (Cons x sched)
  obtain before between where x: "x = (before, between)" by (cases x)
  define s1 where "s1 = run_env before s"
  define s2 where "s2 = run_env between s1"
  from Cons.prems x obtain cnt s3 where
    sm: "send_msg (find_least_busy_thread_id s1) msg s2 = Some (cnt, s3)"
    and r: "if cnt = 1 then s' = s3 else send_to_least_busy_thread sched msg s3 = Some s'"
    by (auto simp: Let_def s1_def s2_def split: option.splits if_splits)
  from send_msg_heap[OF sm] have h3: "fd_heap s3 = fd_heap s \<and> m_fd_info_map s3 = m_fd_info_map s"
    by (simp add: s1_def s2_def)
  show ?case
  proof (cases "cnt = 1")
    case True
    with r h3 show ?thesis by simp
  next
    case False
    with r have "send_to_least_busy_thread sched msg s3 = Some s'" by simp
    from Cons.IH[OF this] h3 show ?thesis by simp
  qed
qed

lemma stop_latch_frame:
  assumes "stop_latch env s = Some s'"
  shows "fd_heap s' = fd_heap s \<and> m_fd_info_map s' = m_fd_info_map s"
proof -
  define s2 where "s2 = stop_begin s"
  from assms obtain cnt s3 where
    sm: "send_msg (- 1) (iomgr_msg_of_type RELINQUISH_IO_THREAD) s2 = Some (cnt, s3)"
    by (auto simp: stop_latch_def Let_def s2_def split: option.splits)
  define s5 where "s5 = s3\<lparr>m_global_timer := None,
      m_yet_to_stop_nthreads := m_yet_to_stop_nthreads s3 - 1\<rparr>"
  from assms sm have r: "if m_yet_to_stop_nthreads s5 = 0 then s' = set_state stopped s5
      else wait_to_be_stopped env s5 = Some s'"
    by (auto simp: stop_latch_def Let_def s2_def s5_def split: option.splits if_splits)
  from send_msg_heap[OF sm] have h5: "fd_heap s5 = fd_heap s \<and> m_fd_info_map s5 = m_fd_info_map s"
    by (simp add: s2_def s5_def stop_begin_def set_state_def)
  show ?thesis
  proof (cases "m_yet_to_stop_nthreads s5 = 0")
    case True
    with r h5 show ?thesis by (simp add: set_state_def)
  next
    case False
    with r have "wait_for_state stopped env s5 = Some s'" by (simp add: wait_to_be_stopped_def)
    from wait_for_state_frame[OF this] h5 show ?thesis by simp
  qed
qed

lemma stop_frame:
  assumes "stop env joined s = Some s'"
  shows "fd_heap s' = fd_heap s \<and> m_fd_info_map s' = m_fd_info_map s"
proof -
  from assms obtain s6 where l: "stop_latch env s = Some s6"
    and e: "s' = s6\<lparr>m_iomgr_threads := [], m_yet_to_start_nthreads := 0,
                     m_expected_ifaces := inbuilt_interface_count,
                     m_drive_ifaces := [], m_iface_list := []\<rparr>"
    by (auto simp: stop_def split: option.splits if_splits)
  from stop_latch_frame[OF l] e show ?thesis by simp
qed

lemma remove_fd_heap: "remove_fd self iface info ctx s = Some s' \<Longrightarrow> fd_heap s' = fd_heap s"
  by (auto simp: remove_fd_def Let_def split: option.splits if_splits)

lemma add_fd_heap:
  assumes "add_fd env self iface fdn cbk evm prio ck b s = Some (a, s')"
  shows "a = length (fd_heap s)"
    and "fd_heap s' = fd_heap s @
           [\<lparr>cb = cbk, is_processing_READ = 0, is_processing_WRITE = 0, fd = fdn,
             ev = evm, is_global = \<not> b, pri = prio, cookie = ck, io_interface = iface\<rparr>]"
  using assms
  by (auto simp: add_fd_unfold Let_def wait_to_be_ready_def
      split: option.splits if_splits dest!: wait_for_state_frame)

lemma iomgr_step_heap:
  "iomgr_step x s = Some s' \<Longrightarrow> \<exists>rs. fd_heap s' = fd_heap s @ rs"
proof (cases x)
  case (Op_add_fd env self iface fdn cbk evm prio ck b)
  assume "iomgr_step x s = Some s'"
  with Op_add_fd obtain a where "add_fd env self iface fdn cbk evm prio ck b s = Some (a, s')"
    by auto
  from add_fd_heap(2)[OF this] show ?thesis by blast
qed (auto simp: start_def add_drive_interface_def Let_def set_state_def fd_reschedule_def
       fd_reschedule_fd_def
       dest: stop_frame remove_fd_heap send_to_least_busy_thread_frame send_msg_heap
       split: option.splits)

lemma iomgr_run_heap:
  "iomgr_run xs s = Some s' \<Longrightarrow> \<exists>rs. fd_heap s' = fd_heap s @ rs"
proof (induction xs arbitrary: s)
  case Nil
  then show ?case by simp
next
  case (Cons x xs)
  then obtain s1 where 1: "iomgr_step x s = Some s1" and 2: "iomgr_run xs s1 = Some s'"
    by (auto split: option.splits)
  from iomgr_step_heap[OF 1] Cons.IH[OF 2] show ?case by auto
qed

section \<open>Descriptor records: creation\<close>

text \<open>
  C8. The \<open>is_global\<close> flag of a descriptor record does not change after the call
  that creates it: \<open>create_fd_info\<close> initializes it to false, the creating \<open>add_fd\<close>
  sets it to the negation of \<open>is_per_thread_fd\<close> on the fresh record only, and
  after any further run of operations of the manager the flag of the new record and
  of every record that existed before is what it was.
\<close>

theorem is_global_immutable:
  assumes "add_fd env self iface fdn cbk evm prio ck b s = Some (a, s1)"
    and "iomgr_run ops s1 = Some s2"
  shows "map_option is_global
           (created_record (Some (create_fd_info iface fdn cbk evm prio ck s))) = Some False
       \<and> a = length (fd_heap s)
       \<and> map_option is_global (fd_info_at s1 a) = Some (\<not> b)
       \<and> map_option is_global (fd_info_at s2 a) = Some (\<not> b)
       \<and> (\<forall>h < length (fd_heap s).
            map_option is_global (fd_info_at s1 h) = map_option is_global (fd_info_at s h)
            \<and> map_option is_global (fd_info_at s2 h) = map_option is_global (fd_info_at s h))"
proof -
  have c: "map_option is_global
           (created_record (Some (create_fd_info iface fdn cbk evm prio ck s))) = Some False"
    by (simp add: created_record_def create_fd_info_def fd_info_at_def)
  note h = add_fd_heap[OF assms(1)]
  from iomgr_run_heap[OF assms(2)] obtain rs where rs: "fd_heap s2 = fd_heap s1 @ rs" by blast
  from h have 1: "map_option is_global (fd_info_at s1 a) = Some (\<not> b)"
    by (simp add: fd_info_at_def)
  from h rs have 2: "map_option is_global (fd_info_at s2 a) = Some (\<not> b)"
    by (simp add: fd_info_at_def nth_append)
  have 3: "map_option is_global (fd_info_at s1 h) = map_option is_global (fd_info_at s h)
      \<and> map_option is_global (fd_info_at s2 h) = map_option is_global (fd_info_at s h)"
    if "h < length (fd_heap s)" for h
    using that h rs by (simp add: fd_info_at_def nth_append)
  from c h(1) 1 2 3 show ?thesis by blast
qed

theorem is_global_immutable_witness:
  "\<exists>a s1 s2. add_fd [] 0 0 5 0 1 9 0 False (example_iomgr\<lparr>m_state := running\<rparr>) = Some (a, s1)
     \<and> iomgr_run [Op_add_interface (CustomIOInterface 1), Op_io_thread_started False,
                  Op_io_thread_stopped] s1 = Some s2
     \<and> map_option is_global (fd_info_at s2 a) = Some True"
proof -
  obtain a s1 where h1: "add_fd [] 0 0 5 0 1 9 0 False (example_iomgr\<lparr>m_state := running\<rparr>) = Some (a, s1)"
    by (simp add: add_fd_unfold Let_def)
  obtain s2 where h2: "iomgr_run [Op_add_interface (CustomIOInterface 1), Op_io_thread_started False,
                  Op_io_thread_stopped] s1 = Some s2"
    by simp
  from is_global_immutable [OF h1 h2] have "map_option is_global (fd_info_at s2 a) = Some (\<not> False)"
    by blast
  then have "map_option is_global (fd_info_at s2 a) = Some True"
    by (simp only: not_False_eq_True)
  with h1 h2 show ?thesis by blast
qed

text \<open>
  C9, as the code has it. The priority of a record created by \<open>create_fd_info\<close> or
  \<open>add_fd\<close> is the \<open>pri\<close> argument of the call, stored as it is and not checked
  against \<open>MAX_PRI\<close>; it lies in \<open>[0, 10)\<close> exactly when the caller's argument does.
\<close>

theorem created_pri_is_argument:
  "map_option pri (created_record (Some (create_fd_info iface fdn cbk evm prio ck s))) = Some prio
   \<and> (add_fd env self iface fdn cbk evm prio ck b s \<noteq> None \<longrightarrow>
        map_option pri (created_record (add_fd env self iface fdn cbk evm prio ck b s)) = Some prio)"
proof -
  have 1: "map_option pri (created_record (Some (create_fd_info iface fdn cbk evm prio ck s))) = Some prio"
    by (simp add: created_record_def create_fd_info_def fd_info_at_def)
  have 2: "map_option pri (created_record (add_fd env self iface fdn cbk evm prio ck b s)) = Some prio"
    if "add_fd env self iface fdn cbk evm prio ck b s \<noteq> None"
  proof -
    from that obtain a s' where r: "add_fd env self iface fdn cbk evm prio ck b s = Some (a, s')"
      by auto
    from add_fd_heap[OF r] show ?thesis
      by (simp add: r created_record_def fd_info_at_def)
  qed
  from 1 2 show ?thesis by blast
qed

theorem created_pri_is_argument_witness:
  "add_fd [] 0 0 5 0 1 9 0 True example_iomgr \<noteq> None
   \<and> map_option pri (created_record (add_fd [] 0 0 5 0 1 9 0 True example_iomgr)) = Some 9"
proof -
  have h: "add_fd [] 0 0 5 0 1 9 0 True example_iomgr \<noteq> None"
    by (simp add: add_fd_unfold Let_def)
  with created_pri_is_argument [of 0 5 0 1 9 0 example_iomgr "[]" 0 True] show ?thesis
    by blast
qed

text \<open>
  C9 as stated fails: a call with priority 10 creates a record with priority 10,
  which is not below \<open>MAX_PRI\<close>.
\<close>

theorem created_pri_out_of_range:
  "map_option pri (created_record (add_fd [] 0 0 5 0 1 10 0 True example_iomgr)) = Some 10
   \<and> \<not> (10 < MAX_PRI)"
  by (simp add: add_fd_unfold Let_def created_record_def fd_info_at_def MAX_PRI_def)

section \<open>Registering and removing descriptors: properties\<close>

lemma is_ctx_of_Cons:
  "is_ctx_of n (c # cs) i \<longleftrightarrow>
     (case i of 0 \<Rightarrow> m_thread_num c = n | Suc k \<Rightarrow> m_thread_num c \<noteq> n \<and> is_ctx_of n cs k)"
proof (cases i)
  case 0
  then show ?thesis by (simp add: is_ctx_of_def)
next
  case (Suc k)
  have "(\<forall>j<Suc k. m_thread_num ((c # cs) ! j) \<noteq> n)
      \<longleftrightarrow> m_thread_num c \<noteq> n \<and> (\<forall>j<k. m_thread_num (cs ! j) \<noteq> n)"
    by (auto simp: less_Suc_eq_0_disj)
  with Suc show ?thesis by (auto simp: is_ctx_of_def)
qed

lemma access_specific_thread_nth:
  "i < length ts \<Longrightarrow>
     access_specific_thread n f ts ! i = (if is_ctx_of n ts i then f (ts ! i) else ts ! i)"
proof (induction ts arbitrary: i)
  case Nil
  then show ?case by simp
next
  case (Cons c cs)
  show ?case
  proof (cases i)
    case 0
    then show ?thesis by (simp add: is_ctx_of_Cons)
  next
    case (Suc k)
    with Cons.prems have "k < length cs" by simp
    from Cons.IH[OF this] Suc show ?thesis by (simp add: is_ctx_of_Cons)
  qed
qed

lemma map_insert_present: "map_insert m k v k \<noteq> None"
  by (simp add: map_insert_def split: option.splits)

lemma map_insert_fresh: "m k = None \<Longrightarrow> map_insert m k v = m(k \<mapsto> v)"
  by (simp add: map_insert_def)

lemma map_insert_kept: "m k = Some w \<Longrightarrow> map_insert m k v = m"
  by (simp add: map_insert_def)

lemma add_fd_global:
  assumes "add_fd env self iface fdn cbk evm prio ck False s = Some (a, s')"
  shows "\<exists>s1. (if m_state s = running then s1 = s else wait_to_be_ready env s = Some s1)
           \<and> m_state s1 = running \<and> m_state s' = running
           \<and> a = length (fd_heap s1)
           \<and> fd_heap s' = fd_heap s1 @
               [\<lparr>cb = cbk, is_processing_READ = 0, is_processing_WRITE = 0, fd = fdn,
                 ev = evm, is_global = True, pri = prio, cookie = ck, io_interface = iface\<rparr>]
           \<and> m_thread_ctx s' =
               map (\<lambda>ctx. if m_is_io_thread ctx \<and> is_fd_addable ctx (fd_heap s' ! a)
                          then add_fd_to_thread a ctx else ctx) (m_thread_ctx s1)
           \<and> m_fd_info_map s' = map_insert (m_fd_info_map s1) fdn a"
proof (cases "m_state s = running")
  case True
  with assms show ?thesis
    by (auto simp: add_fd_unfold Let_def)
next
  case False
  with assms obtain s1 where w: "wait_to_be_ready env s = Some s1"
    by (auto simp: add_fd_unfold split: option.splits)
  then have "m_state s1 = running"
    by (simp add: wait_to_be_ready_def wait_for_state_Some)
  with assms w False show ?thesis
    by (auto simp: add_fd_unfold Let_def)
qed

lemma add_fd_blocks:
  assumes "m_state s \<noteq> running"
  shows "add_fd env self iface fdn cbk evm prio ck False s = None
     \<longleftrightarrow> (\<forall>n\<le>length env. m_state (run_env (take n env) s) \<noteq> running)"
proof -
  from assms have "add_fd env self iface fdn cbk evm prio ck False s = None
      \<longleftrightarrow> wait_for_state running env s = None"
    by (simp add: add_fd_unfold wait_to_be_ready_def Let_def split: option.splits)
  then show ?thesis by (simp only: wait_for_state_None)
qed

lemma add_fd_per_thread:
  "\<exists>a s'. add_fd env self iface fdn cbk evm prio ck True s = Some (a, s')
     \<and> a = length (fd_heap s)
     \<and> m_state s' = m_state s
     \<and> fd_heap s' = fd_heap s @
               [\<lparr>cb = cbk, is_processing_READ = 0, is_processing_WRITE = 0, fd = fdn,
                 ev = evm, is_global = False, pri = prio, cookie = ck, io_interface = iface\<rparr>]
     \<and> m_fd_info_map s' = m_fd_info_map s
     \<and> m_thread_ctx s' =
         access_specific_thread self
           (\<lambda>ctx. if is_fd_addable ctx (fd_heap s' ! a) then add_fd_to_thread a ctx else ctx)
           (m_thread_ctx s)"
  by (simp add: add_fd_unfold Let_def)

lemma add_fd_per_thread_env:
  "add_fd env self iface fdn cbk evm prio ck True s
     = add_fd [] self iface fdn cbk evm prio ck True s"
  by (simp add: add_fd_unfold)

lemma remove_fd_not_ready:
  "m_state s \<noteq> running \<Longrightarrow> m_state s \<noteq> stopping \<Longrightarrow> remove_fd self iface info ctx s = Some s"
  by (simp add: remove_fd_def get_state_def)

lemma remove_fd_global:
  assumes "m_state s = running \<or> m_state s = stopping"
    and "fd_info_at s info = Some r" and "is_global r"
  shows "remove_fd self iface info ctx s =
     Some (s\<lparr>m_thread_ctx :=
               map (\<lambda>c. if m_is_io_thread c then remove_fd_from_thread info c else c)
                 (m_thread_ctx s),
             m_fd_info_map := (m_fd_info_map s)(fd r := None)\<rparr>)"
  using assms
  by (auto simp: remove_fd_def get_state_def Let_def access_all_threads_def is_io_thread_def)

lemma remove_fd_per_thread:
  assumes "m_state s = running \<or> m_state s = stopping"
    and "fd_info_at s info = Some r" and "\<not> is_global r"
  shows "remove_fd self iface info ctx s =
     Some (s\<lparr>m_thread_ctx :=
               access_specific_thread (case ctx of Some n \<Rightarrow> n | None \<Rightarrow> self)
                 (remove_fd_from_thread info) (m_thread_ctx s)\<rparr>)"
  using assms
  by (auto simp: remove_fd_def get_state_def Let_def)

lemma add_fd_running:
  assumes "m_state s = running"
  shows "add_fd env self iface fdn cbk evm prio ck False s
     = Some (length (fd_heap s),
         s\<lparr>fd_heap := fd_heap s @
              [\<lparr>cb = cbk, is_processing_READ = 0, is_processing_WRITE = 0, fd = fdn,
                ev = evm, is_global = True, pri = prio, cookie = ck, io_interface = iface\<rparr>],
           m_thread_ctx :=
             map (\<lambda>ctx. if m_is_io_thread ctx
                          \<and> is_fd_addable ctx
                              \<lparr>cb = cbk, is_processing_READ = 0, is_processing_WRITE = 0, fd = fdn,
                               ev = evm, is_global = True, pri = prio, cookie = ck,
                               io_interface = iface\<rparr>
                        then add_fd_to_thread (length (fd_heap s)) ctx else ctx)
               (m_thread_ctx s),
           m_fd_info_map := map_insert (m_fd_info_map s) fdn (length (fd_heap s))\<rparr>)"
  using assms by (simp add: add_fd_unfold Let_def)

lemma add_fd_returns:
  assumes "\<exists>n\<le>length env. m_state (run_env (take n env) s) = running"
  shows "\<exists>a s'. add_fd env self iface fdn cbk evm prio ck False s = Some (a, s')"
proof (cases "m_state s = running")
  case True
  from add_fd_running[OF this] show ?thesis by blast
next
  case False
  from add_fd_blocks[OF False, of env self iface fdn cbk evm prio ck] assms
  have "add_fd env self iface fdn cbk evm prio ck False s \<noteq> None" by blast
  then show ?thesis by (cases "add_fd env self iface fdn cbk evm prio ck False s") auto
qed

lemma add_fd_global_frame:
  assumes "add_fd env self iface fdn cbk evm prio ck False s = Some (a, s')"
  shows "\<exists>s1. (if m_state s = running then s1 = s else wait_to_be_ready env s = Some s1)
           \<and> s' = s1\<lparr>fd_heap := fd_heap s', m_thread_ctx := m_thread_ctx s',
                     m_fd_info_map := m_fd_info_map s'\<rparr>
           \<and> (\<exists>n\<le>length env. s1 = run_env (take n env) s
                 \<and> (\<forall>m<n. m_state (run_env (take m env) s) \<noteq> running))"
proof (cases "m_state s = running")
  case True
  have "0 \<le> length env \<and> s = run_env (take 0 env) s
      \<and> (\<forall>m<0. m_state (run_env (take m env) s) \<noteq> running)"
    by simp
  then have n: "\<exists>n\<le>length env. s = run_env (take n env) s
                 \<and> (\<forall>m<n. m_state (run_env (take m env) s) \<noteq> running)"
    by (rule exI[of _ 0])
  from assms True have "s' = s\<lparr>fd_heap := fd_heap s', m_thread_ctx := m_thread_ctx s',
                     m_fd_info_map := m_fd_info_map s'\<rparr>"
    by (auto simp: add_fd_unfold Let_def)
  with True n show ?thesis by (intro exI[of _ s] conjI) simp_all
next
  case False
  with assms obtain s1 where w: "wait_to_be_ready env s = Some s1"
    by (auto simp: add_fd_unfold split: option.splits)
  then have "wait_for_state running env s = Some s1" by (simp only: wait_to_be_ready_def)
  from wait_for_state_first[OF this]
  have n: "\<exists>n\<le>length env. s1 = run_env (take n env) s
                 \<and> (\<forall>m<n. m_state (run_env (take m env) s) \<noteq> running)" .
  from assms False w have e: "s' = s1\<lparr>fd_heap := fd_heap s', m_thread_ctx := m_thread_ctx s',
                     m_fd_info_map := m_fd_info_map s'\<rparr>"
    by (auto simp: add_fd_unfold Let_def)
  from False w have i: "if m_state s = running then s1 = s else wait_to_be_ready env s = Some s1"
    by simp
  from i e n show ?thesis by (intro exI[of _ s1] conjI) assumption+
qed

lemma add_fd_per_thread_frame:
  assumes "add_fd env self iface fdn cbk evm prio ck True s = Some (b, t)"
  shows "t = s\<lparr>fd_heap := fd_heap t, m_thread_ctx := m_thread_ctx t\<rparr>"
  using assms by (auto simp: add_fd_unfold Let_def)

text \<open>
  C3. A call of \<open>add_fd\<close> for a global descriptor (\<open>is_per_thread_fd\<close> false) that
  finds the state \<open>running\<close> returns without waiting, whatever the environment. One
  that finds another state waits until it is \<open>running\<close>: it goes on from the first
  moment at which the environment has brought that state about, returns whenever
  there is such a moment, and stays blocked exactly when there is none. When the
  call returns, the new record is the last of the store, it has \<open>is_global\<close> true,
  every thread that is an io thread and accepts the record has it attached and
  every other thread is as before, the record has been inserted into the global
  descriptor map under its descriptor (an entry already there stays, as
  \<^verbatim>\<open>insert\<close> of a standard map has it), and nothing else has changed. A call for a
  per-thread descriptor always returns without waiting, whatever the environment;
  the state and the global map are unchanged, the record has \<open>is_global\<close> false, and
  only the context of the calling thread changes, by the attachment if it accepts
  the record.
\<close>

theorem add_fd_global_or_per_thread:
  "(add_fd env self iface fdn cbk evm prio ck False s = Some (a, s') \<longrightarrow>
      (\<exists>s1. (if m_state s = running then s1 = s else wait_to_be_ready env s = Some s1)
         \<and> (\<exists>n\<le>length env. s1 = run_env (take n env) s
               \<and> (\<forall>m<n. m_state (run_env (take m env) s) \<noteq> running))
         \<and> m_state s1 = running
         \<and> a = length (fd_heap s1)
         \<and> fd_heap s' = fd_heap s1 @
               [\<lparr>cb = cbk, is_processing_READ = 0, is_processing_WRITE = 0, fd = fdn,
                 ev = evm, is_global = True, pri = prio, cookie = ck, io_interface = iface\<rparr>]
         \<and> map_option is_global (fd_info_at s' a) = Some True
         \<and> map_option fd (fd_info_at s' a) = Some fdn
         \<and> length (m_thread_ctx s') = length (m_thread_ctx s1)
         \<and> (\<forall>i<length (m_thread_ctx s1).
              m_thread_ctx s' ! i =
                (if m_is_io_thread (m_thread_ctx s1 ! i)
                    \<and> is_fd_addable (m_thread_ctx s1 ! i) (fd_heap s' ! a)
                 then add_fd_to_thread a (m_thread_ctx s1 ! i) else m_thread_ctx s1 ! i))
         \<and> m_fd_info_map s' = map_insert (m_fd_info_map s1) fdn a
         \<and> m_fd_info_map s' fdn \<noteq> None
         \<and> (m_fd_info_map s1 fdn = None \<longrightarrow> m_fd_info_map s' fdn = Some a)
         \<and> s' = s1\<lparr>fd_heap := fd_heap s', m_thread_ctx := m_thread_ctx s',
                   m_fd_info_map := m_fd_info_map s'\<rparr>))
   \<and> (m_state s = running \<longrightarrow>
        add_fd env self iface fdn cbk evm prio ck False s
          = Some (length (fd_heap s),
              s\<lparr>fd_heap := fd_heap s @
                   [\<lparr>cb = cbk, is_processing_READ = 0, is_processing_WRITE = 0, fd = fdn,
                     ev = evm, is_global = True, pri = prio, cookie = ck, io_interface = iface\<rparr>],
                m_thread_ctx :=
                  map (\<lambda>ctx. if m_is_io_thread ctx
                               \<and> is_fd_addable ctx
                                   \<lparr>cb = cbk, is_processing_READ = 0, is_processing_WRITE = 0,
                                    fd = fdn, ev = evm, is_global = True, pri = prio,
                                    cookie = ck, io_interface = iface\<rparr>
                             then add_fd_to_thread (length (fd_heap s)) ctx else ctx)
                    (m_thread_ctx s),
                m_fd_info_map := map_insert (m_fd_info_map s) fdn (length (fd_heap s))\<rparr>))
   \<and> ((\<exists>n\<le>length env. m_state (run_env (take n env) s) = running) \<longrightarrow>
        (\<exists>b t. add_fd env self iface fdn cbk evm prio ck False s = Some (b, t)))
   \<and> (m_state s \<noteq> running \<longrightarrow>
        (add_fd env self iface fdn cbk evm prio ck False s = None)
          = (\<forall>n\<le>length env. m_state (run_env (take n env) s) \<noteq> running))
   \<and> (\<exists>b t. add_fd env self iface fdn cbk evm prio ck True s = Some (b, t)
        \<and> add_fd [] self iface fdn cbk evm prio ck True s = Some (b, t)
        \<and> b = length (fd_heap s)
        \<and> fd_heap t = fd_heap s @
               [\<lparr>cb = cbk, is_processing_READ = 0, is_processing_WRITE = 0, fd = fdn,
                 ev = evm, is_global = False, pri = prio, cookie = ck, io_interface = iface\<rparr>]
        \<and> m_state t = m_state s
        \<and> map_option is_global (fd_info_at t b) = Some False
        \<and> m_fd_info_map t = m_fd_info_map s
        \<and> length (m_thread_ctx t) = length (m_thread_ctx s)
        \<and> (\<forall>i<length (m_thread_ctx s).
             m_thread_ctx t ! i =
               (if is_ctx_of self (m_thread_ctx s) i
                   \<and> is_fd_addable (m_thread_ctx s ! i) (fd_heap t ! b)
                then add_fd_to_thread b (m_thread_ctx s ! i) else m_thread_ctx s ! i))
        \<and> t = s\<lparr>fd_heap := fd_heap t, m_thread_ctx := m_thread_ctx t\<rparr>)"
proof (intro conjI impI)
  assume h: "add_fd env self iface fdn cbk evm prio ck False s = Some (a, s')"
  from add_fd_global[OF h] obtain s1 where
    w: "if m_state s = running then s1 = s else wait_to_be_ready env s = Some s1"
    and st: "m_state s1 = running"
    and a: "a = length (fd_heap s1)"
    and hp: "fd_heap s' = fd_heap s1 @
               [\<lparr>cb = cbk, is_processing_READ = 0, is_processing_WRITE = 0, fd = fdn,
                 ev = evm, is_global = True, pri = prio, cookie = ck, io_interface = iface\<rparr>]"
    and ts: "m_thread_ctx s' =
               map (\<lambda>ctx. if m_is_io_thread ctx \<and> is_fd_addable ctx (fd_heap s' ! a)
                          then add_fd_to_thread a ctx else ctx) (m_thread_ctx s1)"
    and mp: "m_fd_info_map s' = map_insert (m_fd_info_map s1) fdn a"
    by blast
  from add_fd_global_frame[OF h] obtain s2 where
    w2: "if m_state s = running then s2 = s else wait_to_be_ready env s = Some s2"
    and fr2: "s' = s2\<lparr>fd_heap := fd_heap s', m_thread_ctx := m_thread_ctx s',
                     m_fd_info_map := m_fd_info_map s'\<rparr>"
    and n2: "\<exists>n\<le>length env. s2 = run_env (take n env) s
                 \<and> (\<forall>m<n. m_state (run_env (take m env) s) \<noteq> running)"
    by blast
  from w w2 have "s2 = s1" by (cases "m_state s = running") simp_all
  with fr2 n2 have fr: "s' = s1\<lparr>fd_heap := fd_heap s', m_thread_ctx := m_thread_ctx s',
                     m_fd_info_map := m_fd_info_map s'\<rparr>"
    and n: "\<exists>n\<le>length env. s1 = run_env (take n env) s
                 \<and> (\<forall>m<n. m_state (run_env (take m env) s) \<noteq> running)"
    by simp_all
  from a hp have g: "map_option is_global (fd_info_at s' a) = Some True"
    and f: "map_option fd (fd_info_at s' a) = Some fdn"
    by (simp_all add: fd_info_at_def)
  from ts have len: "length (m_thread_ctx s') = length (m_thread_ctx s1)" by simp
  have nth: "\<forall>i<length (m_thread_ctx s1).
              m_thread_ctx s' ! i =
                (if m_is_io_thread (m_thread_ctx s1 ! i)
                    \<and> is_fd_addable (m_thread_ctx s1 ! i) (fd_heap s' ! a)
                 then add_fd_to_thread a (m_thread_ctx s1 ! i) else m_thread_ctx s1 ! i)"
  proof (intro allI impI)
    fix i assume "i < length (m_thread_ctx s1)"
    then show "m_thread_ctx s' ! i =
                (if m_is_io_thread (m_thread_ctx s1 ! i)
                    \<and> is_fd_addable (m_thread_ctx s1 ! i) (fd_heap s' ! a)
                 then add_fd_to_thread a (m_thread_ctx s1 ! i) else m_thread_ctx s1 ! i)"
      by (subst ts) simp
  qed
  from mp have p: "m_fd_info_map s' fdn \<noteq> None" by (simp add: map_insert_present)
  from mp have q: "m_fd_info_map s1 fdn = None \<longrightarrow> m_fd_info_map s' fdn = Some a"
    by (simp add: map_insert_fresh)
  from w n st a hp g f len nth mp p q fr
  show "\<exists>s1. (if m_state s = running then s1 = s else wait_to_be_ready env s = Some s1)
         \<and> (\<exists>n\<le>length env. s1 = run_env (take n env) s
               \<and> (\<forall>m<n. m_state (run_env (take m env) s) \<noteq> running))
         \<and> m_state s1 = running
         \<and> a = length (fd_heap s1)
         \<and> fd_heap s' = fd_heap s1 @
               [\<lparr>cb = cbk, is_processing_READ = 0, is_processing_WRITE = 0, fd = fdn,
                 ev = evm, is_global = True, pri = prio, cookie = ck, io_interface = iface\<rparr>]
         \<and> map_option is_global (fd_info_at s' a) = Some True
         \<and> map_option fd (fd_info_at s' a) = Some fdn
         \<and> length (m_thread_ctx s') = length (m_thread_ctx s1)
         \<and> (\<forall>i<length (m_thread_ctx s1).
              m_thread_ctx s' ! i =
                (if m_is_io_thread (m_thread_ctx s1 ! i)
                    \<and> is_fd_addable (m_thread_ctx s1 ! i) (fd_heap s' ! a)
                 then add_fd_to_thread a (m_thread_ctx s1 ! i) else m_thread_ctx s1 ! i))
         \<and> m_fd_info_map s' = map_insert (m_fd_info_map s1) fdn a
         \<and> m_fd_info_map s' fdn \<noteq> None
         \<and> (m_fd_info_map s1 fdn = None \<longrightarrow> m_fd_info_map s' fdn = Some a)
         \<and> s' = s1\<lparr>fd_heap := fd_heap s', m_thread_ctx := m_thread_ctx s',
                   m_fd_info_map := m_fd_info_map s'\<rparr>"
    by (intro exI[of _ s1] conjI) assumption+
next
  assume "m_state s = running"
  then show "add_fd env self iface fdn cbk evm prio ck False s
          = Some (length (fd_heap s),
              s\<lparr>fd_heap := fd_heap s @
                   [\<lparr>cb = cbk, is_processing_READ = 0, is_processing_WRITE = 0, fd = fdn,
                     ev = evm, is_global = True, pri = prio, cookie = ck, io_interface = iface\<rparr>],
                m_thread_ctx :=
                  map (\<lambda>ctx. if m_is_io_thread ctx
                               \<and> is_fd_addable ctx
                                   \<lparr>cb = cbk, is_processing_READ = 0, is_processing_WRITE = 0,
                                    fd = fdn, ev = evm, is_global = True, pri = prio,
                                    cookie = ck, io_interface = iface\<rparr>
                             then add_fd_to_thread (length (fd_heap s)) ctx else ctx)
                    (m_thread_ctx s),
                m_fd_info_map := map_insert (m_fd_info_map s) fdn (length (fd_heap s))\<rparr>)"
    by (rule add_fd_running)
next
  assume "\<exists>n\<le>length env. m_state (run_env (take n env) s) = running"
  then show "\<exists>b t. add_fd env self iface fdn cbk evm prio ck False s = Some (b, t)"
    by (rule add_fd_returns)
next
  assume "m_state s \<noteq> running"
  then show "(add_fd env self iface fdn cbk evm prio ck False s = None)
          = (\<forall>n\<le>length env. m_state (run_env (take n env) s) \<noteq> running)"
    by (rule add_fd_blocks)
next
  from add_fd_per_thread[of env self iface fdn cbk evm prio ck s] obtain b t where
    h: "add_fd env self iface fdn cbk evm prio ck True s = Some (b, t)"
    and b: "b = length (fd_heap s)"
    and st: "m_state t = m_state s"
    and hp: "fd_heap t = fd_heap s @
               [\<lparr>cb = cbk, is_processing_READ = 0, is_processing_WRITE = 0, fd = fdn,
                 ev = evm, is_global = False, pri = prio, cookie = ck, io_interface = iface\<rparr>]"
    and mp: "m_fd_info_map t = m_fd_info_map s"
    and ts: "m_thread_ctx t =
         access_specific_thread self
           (\<lambda>ctx. if is_fd_addable ctx (fd_heap t ! b) then add_fd_to_thread b ctx else ctx)
           (m_thread_ctx s)"
    by blast
  from h have h0: "add_fd [] self iface fdn cbk evm prio ck True s = Some (b, t)"
    by (simp only: add_fd_per_thread_env[of env])
  from b hp have g: "map_option is_global (fd_info_at t b) = Some False"
    by (simp add: fd_info_at_def)
  from ts have len: "length (m_thread_ctx t) = length (m_thread_ctx s)" by simp
  have nth: "\<forall>i<length (m_thread_ctx s).
             m_thread_ctx t ! i =
               (if is_ctx_of self (m_thread_ctx s) i
                   \<and> is_fd_addable (m_thread_ctx s ! i) (fd_heap t ! b)
                then add_fd_to_thread b (m_thread_ctx s ! i) else m_thread_ctx s ! i)"
  proof (intro allI impI)
    fix i assume "i < length (m_thread_ctx s)"
    from access_specific_thread_nth[OF this] show "m_thread_ctx t ! i =
               (if is_ctx_of self (m_thread_ctx s) i
                   \<and> is_fd_addable (m_thread_ctx s ! i) (fd_heap t ! b)
                then add_fd_to_thread b (m_thread_ctx s ! i) else m_thread_ctx s ! i)"
      by (subst ts) simp
  qed
  note fr = add_fd_per_thread_frame[OF h]
  from h h0 b hp st g mp len nth fr
  show "\<exists>b t. add_fd env self iface fdn cbk evm prio ck True s = Some (b, t)
        \<and> add_fd [] self iface fdn cbk evm prio ck True s = Some (b, t)
        \<and> b = length (fd_heap s)
        \<and> fd_heap t = fd_heap s @
               [\<lparr>cb = cbk, is_processing_READ = 0, is_processing_WRITE = 0, fd = fdn,
                 ev = evm, is_global = False, pri = prio, cookie = ck, io_interface = iface\<rparr>]
        \<and> m_state t = m_state s
        \<and> map_option is_global (fd_info_at t b) = Some False
        \<and> m_fd_info_map t = m_fd_info_map s
        \<and> length (m_thread_ctx t) = length (m_thread_ctx s)
        \<and> (\<forall>i<length (m_thread_ctx s).
             m_thread_ctx t ! i =
               (if is_ctx_of self (m_thread_ctx s) i
                   \<and> is_fd_addable (m_thread_ctx s ! i) (fd_heap t ! b)
                then add_fd_to_thread b (m_thread_ctx s ! i) else m_thread_ctx s ! i))
        \<and> t = s\<lparr>fd_heap := fd_heap t, m_thread_ctx := m_thread_ctx t\<rparr>"
    by (intro exI[of _ b] exI[of _ t] conjI) assumption+
qed

theorem add_fd_global_or_per_thread_witness:
  "(\<exists>a s'. add_fd [Ev_io_thread_started True] 0 0 5 0 1 9 0 False example_waiting = Some (a, s')
      \<and> m_state example_waiting \<noteq> running
      \<and> m_state s' = running
      \<and> map_option is_global (fd_info_at s' a) = Some True
      \<and> m_fd_info_map s' 5 = Some a
      \<and> length (m_thread_ctx s') = 2
      \<and> a \<in> m_epoll_set (m_thread_ctx s' ! 0)
      \<and> a \<notin> m_epoll_set (m_thread_ctx s' ! 1))
   \<and> m_state example_registered = running
   \<and> (\<exists>s'. add_fd [] 1 0 6 0 1 9 0 False example_registered = Some (1, s')
        \<and> fd_heap s' = [example_record, example_record\<lparr>fd := 6\<rparr>]
        \<and> m_epoll_set (m_thread_ctx s' ! 0) = {0, 1}
        \<and> m_epoll_set (m_thread_ctx s' ! 1) = {}
        \<and> m_fd_info_map s' = [5 \<mapsto> 0, 6 \<mapsto> 1])
   \<and> (\<exists>t. add_fd [] 0 0 7 0 1 9 0 True example_waiting = Some (0, t)
        \<and> m_state t = waiting_for_threads
        \<and> map_option is_global (fd_info_at t 0) = Some False
        \<and> m_fd_info_map t 7 = None
        \<and> m_epoll_set (m_thread_ctx t ! 0) = {0}
        \<and> m_thread_ctx t ! 1 = example_ctx 1 10 False)"
proof -
  define s1 where "s1 = io_thread_started True example_waiting"
  have w: "wait_to_be_ready [Ev_io_thread_started True] example_waiting = Some s1"
    by (simp add: wait_to_be_ready_def s1_def example_waiting_def example_iomgr_def
          io_thread_started_def set_state_and_notify_def)
  have s1: "m_state s1 = running" "m_thread_ctx s1 = example_threads" "fd_heap s1 = []"
    "m_fd_info_map s1 5 = None"
    by (simp_all add: s1_def example_waiting_def example_iomgr_def
          io_thread_started_def set_state_and_notify_def)
  have n: "m_state example_waiting \<noteq> running"
    by (simp add: example_waiting_def)
  have r1: "\<exists>n\<le>length [Ev_io_thread_started True].
              m_state (run_env (take n [Ev_io_thread_started True]) example_waiting) = running"
    using s1(1) by (intro exI[of _ 1]) (simp add: s1_def)
  from add_fd_global_or_per_thread
         [of "[Ev_io_thread_started True]" 0 0 5 0 1 9 0 example_waiting 0 example_waiting,
          THEN conjunct2, THEN conjunct2, THEN conjunct1, THEN mp, OF r1]
  obtain a s' where
    h: "add_fd [Ev_io_thread_started True] 0 0 5 0 1 9 0 False example_waiting = Some (a, s')"
    by blast
  from add_fd_global_or_per_thread
         [of "[Ev_io_thread_started True]" 0 0 5 0 1 9 0 example_waiting a s',
          THEN conjunct1, rule_format, OF h]
  obtain s2 where
    w2: "if m_state example_waiting = running then s2 = example_waiting
         else wait_to_be_ready [Ev_io_thread_started True] example_waiting = Some s2"
    and st2: "m_state s2 = running"
    and a: "a = length (fd_heap s2)"
    and g: "map_option is_global (fd_info_at s' a) = Some True"
    and len: "length (m_thread_ctx s') = length (m_thread_ctx s2)"
    and nth: "\<forall>i<length (m_thread_ctx s2).
              m_thread_ctx s' ! i =
                (if m_is_io_thread (m_thread_ctx s2 ! i)
                    \<and> is_fd_addable (m_thread_ctx s2 ! i) (fd_heap s' ! a)
                 then add_fd_to_thread a (m_thread_ctx s2 ! i) else m_thread_ctx s2 ! i)"
    and mp5: "m_fd_info_map s2 5 = None \<longrightarrow> m_fd_info_map s' 5 = Some a"
    and fr: "s' = s2\<lparr>fd_heap := fd_heap s', m_thread_ctx := m_thread_ctx s',
                   m_fd_info_map := m_fd_info_map s'\<rparr>"
    by (elim exE conjE) (rule that; assumption)
  from w2 n w have e: "s2 = s1" by simp
  from fr have "m_state s' = m_state (s2\<lparr>fd_heap := fd_heap s', m_thread_ctx := m_thread_ctx s',
                   m_fd_info_map := m_fd_info_map s'\<rparr>)"
    by (rule arg_cong)
  with st2 have st: "m_state s' = running" by simp
  from len e s1 have l2: "length (m_thread_ctx s') = 2" by (simp add: example_threads_def)
  from nth e s1 have "m_thread_ctx s' ! 0 = add_fd_to_thread a (example_ctx 0 100 True)"
    and "m_thread_ctx s' ! 1 = example_ctx 1 10 False"
    by (simp_all add: example_threads_def example_ctx_def is_fd_addable_def)
  then have in0: "a \<in> m_epoll_set (m_thread_ctx s' ! 0)"
    and out1: "a \<notin> m_epoll_set (m_thread_ctx s' ! 1)"
    by (simp_all add: add_fd_to_thread_def example_ctx_def)
  from mp5 e s1 have m5: "m_fd_info_map s' 5 = Some a" by simp
  from h n st g m5 l2 in0 out1
  have 1: "\<exists>a s'. add_fd [Ev_io_thread_started True] 0 0 5 0 1 9 0 False example_waiting = Some (a, s')
      \<and> m_state example_waiting \<noteq> running
      \<and> m_state s' = running
      \<and> map_option is_global (fd_info_at s' a) = Some True
      \<and> m_fd_info_map s' 5 = Some a
      \<and> length (m_thread_ctx s') = 2
      \<and> a \<in> m_epoll_set (m_thread_ctx s' ! 0)
      \<and> a \<notin> m_epoll_set (m_thread_ctx s' ! 1)"
    by (intro exI[of _ a] exI[of _ s'] conjI) assumption+
  have rr: "m_state example_registered = running"
    by (simp add: example_registered_def)
  note run = add_fd_global_or_per_thread
         [of "[]" 1 0 6 0 1 9 0 example_registered 0 example_registered,
          THEN conjunct2, THEN conjunct1, THEN mp, OF rr]
  define u where "u = snd (the (add_fd [] 1 0 6 0 1 9 0 False example_registered))"
  from run have hu: "add_fd [] 1 0 6 0 1 9 0 False example_registered = Some (1, u)"
    by (simp add: u_def example_registered_def)
  from run have u1: "fd_heap u = [example_record, example_record\<lparr>fd := 6\<rparr>]"
    and u2: "m_epoll_set (m_thread_ctx u ! 0) = {0, 1}"
    and u3: "m_epoll_set (m_thread_ctx u ! 1) = {}"
    and u4: "m_fd_info_map u = [5 \<mapsto> 0, 6 \<mapsto> 1]"
    by (auto simp: u_def example_registered_def example_record_def example_iomgr_def
          example_ctx_def add_fd_to_thread_def is_fd_addable_def map_insert_def)
  from hu u1 u2 u3 u4
  have 2: "\<exists>s'. add_fd [] 1 0 6 0 1 9 0 False example_registered = Some (1, s')
        \<and> fd_heap s' = [example_record, example_record\<lparr>fd := 6\<rparr>]
        \<and> m_epoll_set (m_thread_ctx s' ! 0) = {0, 1}
        \<and> m_epoll_set (m_thread_ctx s' ! 1) = {}
        \<and> m_fd_info_map s' = [5 \<mapsto> 0, 6 \<mapsto> 1]"
    by (intro exI[of _ u] conjI) assumption+
  from add_fd_global_or_per_thread
         [of "[]" 0 0 7 0 1 9 0 example_waiting 0 example_waiting,
          THEN conjunct2, THEN conjunct2, THEN conjunct2, THEN conjunct2]
  obtain b t where
    p: "add_fd [] 0 0 7 0 1 9 0 True example_waiting = Some (b, t)"
    and pb: "b = length (fd_heap example_waiting)"
    and pst: "m_state t = m_state example_waiting"
    and pg: "map_option is_global (fd_info_at t b) = Some False"
    and pm: "m_fd_info_map t = m_fd_info_map example_waiting"
    and pn: "\<forall>i<length (m_thread_ctx example_waiting).
             m_thread_ctx t ! i =
               (if is_ctx_of 0 (m_thread_ctx example_waiting) i
                   \<and> is_fd_addable (m_thread_ctx example_waiting ! i) (fd_heap t ! b)
                then add_fd_to_thread b (m_thread_ctx example_waiting ! i)
                else m_thread_ctx example_waiting ! i)"
    by (elim exE conjE) (rule that; assumption)
  from pb have b0: "b = 0" by (simp add: example_waiting_def example_iomgr_def)
  have lw: "length (m_thread_ctx example_waiting) = 2"
    and c0: "is_ctx_of 0 (m_thread_ctx example_waiting) 0"
    and c1: "\<not> is_ctx_of 0 (m_thread_ctx example_waiting) 1"
    and ad: "is_fd_addable (m_thread_ctx example_waiting ! 0) (fd_heap t ! b)"
    by (simp_all add: example_waiting_def example_threads_def example_ctx_def is_ctx_of_def
          is_fd_addable_def)
  from lw have i0: "0 < length (m_thread_ctx example_waiting)"
    and i1: "1 < length (m_thread_ctx example_waiting)"
    by simp_all
  from pn[rule_format, OF i0] c0 ad b0
  have "m_thread_ctx t ! 0 = add_fd_to_thread 0 (m_thread_ctx example_waiting ! 0)" by simp
  then have e0: "m_epoll_set (m_thread_ctx t ! 0) = {0}"
    by (simp add: add_fd_to_thread_def example_waiting_def example_threads_def example_ctx_def)
  from pn[rule_format, OF i1] c1
  have "m_thread_ctx t ! 1 = m_thread_ctx example_waiting ! 1" by simp
  then have e1: "m_thread_ctx t ! 1 = example_ctx 1 10 False"
    by (simp add: example_waiting_def example_threads_def)
  from pst have ps: "m_state t = waiting_for_threads" by (simp add: example_waiting_def)
  from pm have p7: "m_fd_info_map t 7 = None" by (simp add: example_waiting_def example_iomgr_def)
  from p b0 have p0: "add_fd [] 0 0 7 0 1 9 0 True example_waiting = Some (0, t)" by simp
  from pg b0 have pg0: "map_option is_global (fd_info_at t 0) = Some False" by simp
  from p0 ps pg0 p7 e0 e1
  have 3: "\<exists>t. add_fd [] 0 0 7 0 1 9 0 True example_waiting = Some (0, t)
        \<and> m_state t = waiting_for_threads
        \<and> map_option is_global (fd_info_at t 0) = Some False
        \<and> m_fd_info_map t 7 = None
        \<and> m_epoll_set (m_thread_ctx t ! 0) = {0}
        \<and> m_thread_ctx t ! 1 = example_ctx 1 10 False"
    by (intro exI[of _ t] conjI) assumption+
  from 1 rr 2 3 show ?thesis by (intro conjI) assumption+
qed

text \<open>
  C4. Outside the states \<open>running\<close> and \<open>stopping\<close> a call of \<open>remove_fd\<close> changes
  nothing. In those states a global record is removed from every io thread and the
  entry of its descriptor is erased from the global map; a per-thread record is
  removed from the context that was passed or, without one, from that of the
  calling thread, and from no other; the global map stays as it is.
\<close>

theorem remove_fd_effect:
  "(m_state s \<noteq> running \<and> m_state s \<noteq> stopping \<longrightarrow>
      remove_fd self iface info ctx s = Some s)
   \<and> ((m_state s = running \<or> m_state s = stopping)
        \<and> fd_info_at s info = Some r \<and> is_global r \<longrightarrow>
      (\<exists>s'. remove_fd self iface info ctx s = Some s'
         \<and> length (m_thread_ctx s') = length (m_thread_ctx s)
         \<and> (\<forall>i<length (m_thread_ctx s).
              m_thread_ctx s' ! i =
                (if m_is_io_thread (m_thread_ctx s ! i)
                 then remove_fd_from_thread info (m_thread_ctx s ! i)
                 else m_thread_ctx s ! i))
         \<and> (\<forall>c\<in>set (m_thread_ctx s'). m_is_io_thread c \<longrightarrow> info \<notin> m_epoll_set c)
         \<and> m_fd_info_map s' = (m_fd_info_map s)(fd r := None)
         \<and> m_fd_info_map s' (fd r) = None))
   \<and> ((m_state s = running \<or> m_state s = stopping)
        \<and> fd_info_at s info = Some r \<and> \<not> is_global r \<longrightarrow>
      (\<exists>s'. remove_fd self iface info ctx s = Some s'
         \<and> m_fd_info_map s' = m_fd_info_map s
         \<and> length (m_thread_ctx s') = length (m_thread_ctx s)
         \<and> (\<forall>i<length (m_thread_ctx s).
              m_thread_ctx s' ! i =
                (if is_ctx_of (case ctx of Some n \<Rightarrow> n | None \<Rightarrow> self) (m_thread_ctx s) i
                 then remove_fd_from_thread info (m_thread_ctx s ! i)
                 else m_thread_ctx s ! i))))"
proof (intro conjI impI)
  assume "m_state s \<noteq> running \<and> m_state s \<noteq> stopping"
  then show "remove_fd self iface info ctx s = Some s"
    by (simp add: remove_fd_not_ready)
next
  assume a: "(m_state s = running \<or> m_state s = stopping)
        \<and> fd_info_at s info = Some r \<and> is_global r"
  define s' where "s' = s\<lparr>m_thread_ctx :=
               map (\<lambda>c. if m_is_io_thread c then remove_fd_from_thread info c else c)
                 (m_thread_ctx s),
             m_fd_info_map := (m_fd_info_map s)(fd r := None)\<rparr>"
  from a have a1: "m_state s = running \<or> m_state s = stopping"
    and a2: "fd_info_at s info = Some r" and a3: "is_global r"
    by blast+
  have 1: "remove_fd self iface info ctx s = Some s'"
    unfolding s'_def by (rule remove_fd_global[OF a1 a2 a3])
  have 2: "length (m_thread_ctx s') = length (m_thread_ctx s)" by (simp add: s'_def)
  have 3: "\<forall>i<length (m_thread_ctx s).
              m_thread_ctx s' ! i =
                (if m_is_io_thread (m_thread_ctx s ! i)
                 then remove_fd_from_thread info (m_thread_ctx s ! i)
                 else m_thread_ctx s ! i)"
    by (simp add: s'_def)
  have 4: "\<forall>c\<in>set (m_thread_ctx s'). m_is_io_thread c \<longrightarrow> info \<notin> m_epoll_set c"
    by (auto simp: s'_def remove_fd_from_thread_def split: if_splits)
  have 5: "m_fd_info_map s' = (m_fd_info_map s)(fd r := None)"
    and 6: "m_fd_info_map s' (fd r) = None"
    by (simp_all add: s'_def)
  from 1 2 3 4 5 6
  show "\<exists>s'. remove_fd self iface info ctx s = Some s'
         \<and> length (m_thread_ctx s') = length (m_thread_ctx s)
         \<and> (\<forall>i<length (m_thread_ctx s).
              m_thread_ctx s' ! i =
                (if m_is_io_thread (m_thread_ctx s ! i)
                 then remove_fd_from_thread info (m_thread_ctx s ! i)
                 else m_thread_ctx s ! i))
         \<and> (\<forall>c\<in>set (m_thread_ctx s'). m_is_io_thread c \<longrightarrow> info \<notin> m_epoll_set c)
         \<and> m_fd_info_map s' = (m_fd_info_map s)(fd r := None)
         \<and> m_fd_info_map s' (fd r) = None"
    by (intro exI[of _ s'] conjI) assumption+
next
  assume a: "(m_state s = running \<or> m_state s = stopping)
        \<and> fd_info_at s info = Some r \<and> \<not> is_global r"
  define s' where "s' = s\<lparr>m_thread_ctx :=
               access_specific_thread (case ctx of Some n \<Rightarrow> n | None \<Rightarrow> self)
                 (remove_fd_from_thread info) (m_thread_ctx s)\<rparr>"
  from a have a1: "m_state s = running \<or> m_state s = stopping"
    and a2: "fd_info_at s info = Some r" and a3: "\<not> is_global r"
    by blast+
  have 1: "remove_fd self iface info ctx s = Some s'"
    unfolding s'_def by (rule remove_fd_per_thread[OF a1 a2 a3])
  have 2: "m_fd_info_map s' = m_fd_info_map s"
    and 3: "length (m_thread_ctx s') = length (m_thread_ctx s)"
    by (simp_all add: s'_def)
  have 4: "\<forall>i<length (m_thread_ctx s).
              m_thread_ctx s' ! i =
                (if is_ctx_of (case ctx of Some n \<Rightarrow> n | None \<Rightarrow> self) (m_thread_ctx s) i
                 then remove_fd_from_thread info (m_thread_ctx s ! i)
                 else m_thread_ctx s ! i)"
    by (simp add: s'_def access_specific_thread_nth)
  from 1 2 3 4
  show "\<exists>s'. remove_fd self iface info ctx s = Some s'
         \<and> m_fd_info_map s' = m_fd_info_map s
         \<and> length (m_thread_ctx s') = length (m_thread_ctx s)
         \<and> (\<forall>i<length (m_thread_ctx s).
              m_thread_ctx s' ! i =
                (if is_ctx_of (case ctx of Some n \<Rightarrow> n | None \<Rightarrow> self) (m_thread_ctx s) i
                 then remove_fd_from_thread info (m_thread_ctx s ! i)
                 else m_thread_ctx s ! i))"
    by (intro exI[of _ s'] conjI) assumption+
qed

theorem remove_fd_effect_witness:
  "remove_fd 0 0 0 None example_iomgr = Some example_iomgr
   \<and> (\<exists>s'. remove_fd 1 0 0 None example_registered = Some s'
         \<and> m_epoll_set (m_thread_ctx s' ! 0) = {}
         \<and> m_fd_info_map s' 5 = None)
   \<and> (\<exists>s'. remove_fd 1 0 0 (Some 0) example_per_thread = Some s'
         \<and> m_epoll_set (m_thread_ctx s' ! 0) = {}
         \<and> m_thread_ctx s' ! 1 = m_thread_ctx example_per_thread ! 1)"
proof -
  note inst = remove_fd_effect
  have h1: "m_state example_iomgr \<noteq> running \<and> m_state example_iomgr \<noteq> stopping"
    by (simp add: example_iomgr_def)
  from inst[of example_iomgr 0 0 0 None, THEN conjunct1, rule_format, OF h1]
  have 1: "remove_fd 0 0 0 None example_iomgr = Some example_iomgr" .
  have h2: "(m_state example_registered = running \<or> m_state example_registered = stopping)
        \<and> fd_info_at example_registered 0 = Some example_record \<and> is_global example_record"
    by (simp add: example_registered_def example_record_def fd_info_at_def)
  from inst[of example_registered 1 0 0 None example_record,
            THEN conjunct2, THEN conjunct1, rule_format, OF h2]
  obtain s' where r: "remove_fd 1 0 0 None example_registered = Some s'"
    and nth: "\<forall>i<length (m_thread_ctx example_registered).
              m_thread_ctx s' ! i =
                (if m_is_io_thread (m_thread_ctx example_registered ! i)
                 then remove_fd_from_thread 0 (m_thread_ctx example_registered ! i)
                 else m_thread_ctx example_registered ! i)"
    and mp: "m_fd_info_map s' (fd example_record) = None"
    by (elim exE conjE) (rule that; assumption)
  from nth have "m_thread_ctx s' ! 0 = remove_fd_from_thread 0 (add_fd_to_thread 0 (example_ctx 0 100 True))"
    by (simp add: example_registered_def add_fd_to_thread_def example_ctx_def)
  then have e: "m_epoll_set (m_thread_ctx s' ! 0) = {}"
    by (simp add: remove_fd_from_thread_def add_fd_to_thread_def example_ctx_def)
  from mp have m: "m_fd_info_map s' 5 = None" by (simp add: example_record_def)
  from r e m have 2: "\<exists>s'. remove_fd 1 0 0 None example_registered = Some s'
         \<and> m_epoll_set (m_thread_ctx s' ! 0) = {}
         \<and> m_fd_info_map s' 5 = None"
    by blast
  have h3: "(m_state example_per_thread = running \<or> m_state example_per_thread = stopping)
        \<and> fd_info_at example_per_thread 0 = Some (example_record\<lparr>is_global := False\<rparr>)
        \<and> \<not> is_global (example_record\<lparr>is_global := False\<rparr>)"
    by (simp add: example_per_thread_def example_registered_def fd_info_at_def)
  from inst[of example_per_thread 1 0 0 "Some 0" "example_record\<lparr>is_global := False\<rparr>",
            THEN conjunct2, THEN conjunct2, rule_format, OF h3]
  obtain t where r3: "remove_fd 1 0 0 (Some 0) example_per_thread = Some t"
    and nth3: "\<forall>i<length (m_thread_ctx example_per_thread).
              m_thread_ctx t ! i =
                (if is_ctx_of (case Some 0 of Some n \<Rightarrow> n | None \<Rightarrow> 1)
                      (m_thread_ctx example_per_thread) i
                 then remove_fd_from_thread 0 (m_thread_ctx example_per_thread ! i)
                 else m_thread_ctx example_per_thread ! i)"
    by (elim exE conjE) (rule that; assumption)
  have c0: "is_ctx_of 0 (m_thread_ctx example_per_thread) 0"
    and c1: "\<not> is_ctx_of 0 (m_thread_ctx example_per_thread) 1"
    by (simp_all add: is_ctx_of_def example_per_thread_def example_registered_def
          example_ctx_def add_fd_to_thread_def)
  have l: "length (m_thread_ctx example_per_thread) = 2"
    by (simp add: example_per_thread_def example_registered_def)
  from nth3 l c0 have "m_thread_ctx t ! 0 = remove_fd_from_thread 0 (m_thread_ctx example_per_thread ! 0)"
    by simp
  then have e3: "m_epoll_set (m_thread_ctx t ! 0) = {}"
    by (simp add: example_per_thread_def example_registered_def remove_fd_from_thread_def
          add_fd_to_thread_def example_ctx_def)
  from nth3 l c1 have k3: "m_thread_ctx t ! 1 = m_thread_ctx example_per_thread ! 1"
    by simp
  from r3 e3 k3 have 3: "\<exists>s'. remove_fd 1 0 0 (Some 0) example_per_thread = Some s'
         \<and> m_epoll_set (m_thread_ctx s' ! 0) = {}
         \<and> m_thread_ctx s' ! 1 = m_thread_ctx example_per_thread ! 1"
    by blast
  from 1 2 3 show ?thesis by blast
qed

section \<open>Sending messages\<close>

lemma write_wakeup_token_Some:
  assumes "write_wakeup_token k n = Some (r, n')"
  shows "r \<noteq> Eagain \<and> n < n' \<and> k (n' - 1) = r \<and> filter (\<lambda>j. k j \<noteq> Eagain) [n..<n'] = [n' - 1]"
proof -
  let ?P = "\<lambda>k n res. fst res \<noteq> Eagain \<and> n < snd res \<and> k (snd res - 1) = fst res
      \<and> filter (\<lambda>j. k j \<noteq> Eagain) [n..<snd res] = [snd res - 1]"
  have "?P k n (r, n')"
  proof (rule write_wakeup_token.raw_induct[where P = ?P, OF _ assms])
    fix f :: "(nat \<Rightarrow> write_result) \<Rightarrow> nat \<Rightarrow> (write_result \<times> nat) option"
      and k n res
    assume ih: "\<And>k n res. f k n = Some res \<Longrightarrow> ?P k n res"
      and eq: "(if k n = Eagain then f k (Suc n) else Some (k n, Suc n)) = Some res"
    show "?P k n res"
    proof (cases "k n = Eagain")
      case True
      with eq have "f k (Suc n) = Some res" by simp
      from ih[OF this] have h: "fst res \<noteq> Eagain" "Suc n < snd res" "k (snd res - 1) = fst res"
        "filter (\<lambda>j. k j \<noteq> Eagain) [Suc n..<snd res] = [snd res - 1]"
        by simp_all
      from h(2) have "[n..<snd res] = n # [Suc n..<snd res]"
        by (simp add: upt_conv_Cons)
      with True h show ?thesis by simp
    next
      case False
      with eq have "res = (k n, Suc n)" by simp
      with False show ?thesis by simp
    qed
  qed
  then show ?thesis by simp
qed

lemma write_wakeup_token_returns:
  assumes "n \<le> j" and "k j \<noteq> Eagain"
  shows "write_wakeup_token k n \<noteq> None"
  using assms
proof (induction "j - n" arbitrary: n)
  case 0
  then have "n = j" by simp
  with 0 show ?case by (subst write_wakeup_token.simps) simp
next
  case (Suc d)
  show ?case
  proof (cases "k n = Eagain")
    case True
    from Suc have "d = j - Suc n" "Suc n \<le> j" by simp_all
    from Suc(1)[OF this Suc(4)] True show ?thesis
      by (subst write_wakeup_token.simps) simp
  next
    case False
    then show ?thesis by (subst write_wakeup_token.simps) simp
  qed
qed

lemma completed_writes_append:
  "n \<le> m \<Longrightarrow> m \<le> n' \<Longrightarrow> completed_writes k n n' = completed_writes k n m + completed_writes k m n'"
proof -
  assume a: "n \<le> m" "m \<le> n'"
  then have "[n..<n'] = [n..<m] @ [m..<n']"
    by (metis le_Suc_ex upt_add_eq_append)
  then show ?thesis by (simp add: completed_writes_def)
qed

lemma send_msg_to_ctx_Some:
  assumes "send_msg_to_ctx k msg c cnt n = Some (c', cnt', n')"
  shows "if msg_deliverable c
         then (\<exists>r. r \<noteq> Eagain \<and> c' = token_written r (put_msg msg c))
              \<and> cnt' = cnt + 1 \<and> n < n' \<and> completed_writes k n n' = 1
         else c' = c \<and> cnt' = cnt \<and> n' = n"
proof (cases "msg_deliverable c")
  case False
  with assms show ?thesis
    by (auto simp: send_msg_to_ctx_def msg_deliverable_def completed_writes_def)
next
  case True
  with assms obtain r where w: "write_wakeup_token k n = Some (r, n')"
    and c': "c' = token_written r (put_msg msg c)" and cnt': "cnt' = cnt + 1"
    by (auto simp: send_msg_to_ctx_def msg_deliverable_def Let_def split: option.splits)
  from write_wakeup_token_Some[OF w] c' cnt' True show ?thesis
    by (auto simp: completed_writes_def)
qed

lemma send_msg_to_ctx_returns:
  assumes "\<forall>n. \<exists>j\<ge>n. k j \<noteq> Eagain"
  shows "send_msg_to_ctx k msg c cnt n \<noteq> None"
proof -
  from assms obtain j where "n \<le> j" "k j \<noteq> Eagain" by blast
  from write_wakeup_token_returns[of n j k, OF this] show ?thesis
    by (auto simp: send_msg_to_ctx_def Let_def split: option.splits)
qed

lemma send_msg_all_Some:
  "send_msg_all k msg cs cnt n = Some (cs', cnt', n') \<Longrightarrow>
     length cs' = length cs
     \<and> cnt' = cnt + of_nat (length (filter msg_deliverable cs))
     \<and> n \<le> n'
     \<and> completed_writes k n n' = length (filter msg_deliverable cs)
     \<and> (\<forall>i<length cs.
          if msg_deliverable (cs ! i)
          then \<exists>r. r \<noteq> Eagain \<and> cs' ! i = token_written r (put_msg msg (cs ! i))
          else cs' ! i = cs ! i)"
proof (induction cs arbitrary: cs' cnt cnt' n n')
  case Nil
  then show ?case by (simp add: completed_writes_def)
next
  case (Cons c cs)
  from Cons.prems obtain c1 cnt1 n1 cs1 where
    h: "send_msg_to_ctx k msg c cnt n = Some (c1, cnt1, n1)"
    and t: "send_msg_all k msg cs cnt1 n1 = Some (cs1, cnt', n')"
    and e: "cs' = c1 # cs1"
    by (auto split: option.splits)
  note ih = Cons.IH[OF t]
  note hd = send_msg_to_ctx_Some[OF h]
  from ih have le1: "n1 \<le> n'" by simp
  show ?case
  proof (cases "msg_deliverable c")
    case True
    with hd have d: "\<exists>r. r \<noteq> Eagain \<and> c1 = token_written r (put_msg msg c)"
      "cnt1 = cnt + 1" "n < n1" "completed_writes k n n1 = 1"
      by simp_all
    from d(3) le1 have cw: "completed_writes k n n' = completed_writes k n n1 + completed_writes k n1 n'"
      by (intro completed_writes_append) simp_all
    have nth: "\<forall>i<length (c # cs).
          if msg_deliverable ((c # cs) ! i)
          then \<exists>r. r \<noteq> Eagain \<and> cs' ! i = token_written r (put_msg msg ((c # cs) ! i))
          else cs' ! i = (c # cs) ! i"
    proof (intro allI impI)
      fix i assume "i < length (c # cs)"
      then show "if msg_deliverable ((c # cs) ! i)
          then \<exists>r. r \<noteq> Eagain \<and> cs' ! i = token_written r (put_msg msg ((c # cs) ! i))
          else cs' ! i = (c # cs) ! i"
        using ih d(1) True e by (cases i) simp_all
    qed
    from ih d cw True e nth show ?thesis by simp
  next
    case False
    with hd have d: "c1 = c" "cnt1 = cnt" "n1 = n" by simp_all
    have nth: "\<forall>i<length (c # cs).
          if msg_deliverable ((c # cs) ! i)
          then \<exists>r. r \<noteq> Eagain \<and> cs' ! i = token_written r (put_msg msg ((c # cs) ! i))
          else cs' ! i = (c # cs) ! i"
    proof (intro allI impI)
      fix i assume "i < length (c # cs)"
      then show "if msg_deliverable ((c # cs) ! i)
          then \<exists>r. r \<noteq> Eagain \<and> cs' ! i = token_written r (put_msg msg ((c # cs) ! i))
          else cs' ! i = (c # cs) ! i"
        using ih d(1) False e by (cases i) simp_all
    qed
    from ih d False e nth show ?thesis by simp
  qed
qed

lemma send_msg_all_returns:
  assumes "\<forall>n. \<exists>j\<ge>n. k j \<noteq> Eagain"
  shows "send_msg_all k msg cs cnt n \<noteq> None"
proof (induction cs arbitrary: cnt n)
  case Nil
  then show ?case by simp
next
  case (Cons c cs)
  from send_msg_to_ctx_returns[OF assms] obtain c1 cnt1 n1 where
    "send_msg_to_ctx k msg c cnt n = Some (c1, cnt1, n1)"
    by (metis option.exhaust prod_cases3)
  with Cons[of cnt1 n1] show ?case by (auto split: option.splits)
qed

lemma send_msg_all_none_deliverable:
  "\<forall>c\<in>set cs. \<not> msg_deliverable c \<Longrightarrow> send_msg_all k msg cs cnt n = Some (cs, cnt, n)"
  by (induction cs) (simp_all add: send_msg_to_ctx_def msg_deliverable_def)

lemma length_filter_nth:
  "length (filter P xs) = length (filter (\<lambda>i. P (xs ! i)) [0..<length xs])"
proof -
  have "length (filter P (map ((!) xs) [0..<length xs]))
      = length (filter (P \<circ> (!) xs) [0..<length xs])"
    by (simp only: filter_map length_map)
  then show ?thesis by (simp add: map_nth comp_def)
qed

lemma length_filter_unique:
  assumes "distinct xs" and "\<And>x y. P x \<Longrightarrow> P y \<Longrightarrow> x = y"
  shows "length (filter P xs) = (if \<exists>x\<in>set xs. P x then 1 else 0)"
  using assms(1)
proof (induction xs)
  case Nil
  then show ?case by simp
next
  case (Cons a xs)
  show ?case
  proof (cases "P a")
    case True
    have "\<not> (\<exists>x\<in>set xs. P x)"
    proof
      assume "\<exists>x\<in>set xs. P x"
      then obtain x where "x \<in> set xs" "P x" by blast
      with assms(2)[OF True] Cons.prems show False by auto
    qed
    with Cons True show ?thesis by simp
  next
    case False
    with Cons show ?thesis by simp
  qed
qed

lemma is_ctx_of_unique: "is_ctx_of n ts i \<Longrightarrow> is_ctx_of n ts j \<Longrightarrow> i = j"
  unfolding is_ctx_of_def by (metis linorder_neqE_nat)

lemma msg_target_count_broadcast:
  "msg_target_count (- 1) ts = length (filter msg_deliverable ts)"
proof -
  have "filter (msg_target (- 1) ts) [0..<length ts]
      = filter (\<lambda>i. msg_deliverable (ts ! i)) [0..<length ts]"
    by (rule filter_cong) (simp_all add: msg_target_def)
  then show ?thesis
    by (simp only: msg_target_count_def length_filter_nth[of msg_deliverable ts])
qed

lemma msg_target_count_specific:
  assumes "tn \<noteq> - 1"
  shows "msg_target_count tn ts
     = (if \<exists>i. is_ctx_of tn ts i \<and> msg_deliverable (ts ! i) then 1 else 0)"
proof -
  have u: "\<And>x y. msg_target tn ts x \<Longrightarrow> msg_target tn ts y \<Longrightarrow> x = y"
    using assms by (auto simp: msg_target_def intro: is_ctx_of_unique)
  have "(\<exists>x\<in>set [0..<length ts]. msg_target tn ts x)
      \<longleftrightarrow> (\<exists>i. is_ctx_of tn ts i \<and> msg_deliverable (ts ! i))"
    using assms by (auto simp: msg_target_def is_ctx_of_def)
  with length_filter_unique[of "[0..<length ts]" "msg_target tn ts", OF distinct_upt u]
  show ?thesis by (simp add: msg_target_count_def)
qed

lemma send_msg_specific_Some:
  "send_msg_specific k tn msg cs cnt n = Some (cs', cnt', n') \<Longrightarrow>
     length cs' = length cs
     \<and> cnt' = cnt + (if \<exists>i. is_ctx_of tn cs i \<and> msg_deliverable (cs ! i) then 1 else 0)
     \<and> n \<le> n'
     \<and> completed_writes k n n'
         = (if \<exists>i. is_ctx_of tn cs i \<and> msg_deliverable (cs ! i) then 1 else 0)
     \<and> (\<forall>i<length cs.
          if is_ctx_of tn cs i \<and> msg_deliverable (cs ! i)
          then \<exists>r. r \<noteq> Eagain \<and> cs' ! i = token_written r (put_msg msg (cs ! i))
          else cs' ! i = cs ! i)"
proof (induction cs arbitrary: cs')
  case Nil
  then show ?case by (simp add: completed_writes_def is_ctx_of_def)
next
  case (Cons c cs)
  show ?case
  proof (cases "m_thread_num c = tn")
    case True
    with Cons.prems obtain c1 where
      h: "send_msg_to_ctx k msg c cnt n = Some (c1, cnt', n')" and e: "cs' = c1 # cs"
      by (auto split: option.splits)
    note hd = send_msg_to_ctx_Some[OF h]
    have iff: "\<And>i. is_ctx_of tn (c # cs) i \<longleftrightarrow> i = 0"
      using True by (simp add: is_ctx_of_Cons split: nat.splits)
    then have ex: "(\<exists>i. is_ctx_of tn (c # cs) i \<and> msg_deliverable ((c # cs) ! i))
        \<longleftrightarrow> msg_deliverable c"
      by auto
    have nth: "\<forall>i<length (c # cs).
          if is_ctx_of tn (c # cs) i \<and> msg_deliverable ((c # cs) ! i)
          then \<exists>r. r \<noteq> Eagain \<and> cs' ! i = token_written r (put_msg msg ((c # cs) ! i))
          else cs' ! i = (c # cs) ! i"
    proof (intro allI impI)
      fix i assume "i < length (c # cs)"
      show "if is_ctx_of tn (c # cs) i \<and> msg_deliverable ((c # cs) ! i)
          then \<exists>r. r \<noteq> Eagain \<and> cs' ! i = token_written r (put_msg msg ((c # cs) ! i))
          else cs' ! i = (c # cs) ! i"
        using hd e iff by (cases i) (auto split: if_splits)
    qed
    from hd e have rest: "length cs' = length (c # cs)"
      "cnt' = cnt + (if msg_deliverable c then 1 else 0)" "n \<le> n'"
      "completed_writes k n n' = (if msg_deliverable c then 1 else 0)"
      by (auto simp: completed_writes_def split: if_splits)
    from rest nth show ?thesis by (simp only: ex)
  next
    case False
    with Cons.prems obtain cs1 where
      t: "send_msg_specific k tn msg cs cnt n = Some (cs1, cnt', n')" and e: "cs' = c # cs1"
      by (auto split: option.splits)
    note ih = Cons.IH[OF t]
    have iff: "\<And>i. is_ctx_of tn (c # cs) i \<longleftrightarrow> (\<exists>j. i = Suc j \<and> is_ctx_of tn cs j)"
      using False by (simp add: is_ctx_of_Cons split: nat.splits)
    then have ex: "(\<exists>i. is_ctx_of tn (c # cs) i \<and> msg_deliverable ((c # cs) ! i))
        \<longleftrightarrow> (\<exists>i. is_ctx_of tn cs i \<and> msg_deliverable (cs ! i))"
      by auto
    have nth: "\<forall>i<length (c # cs).
          if is_ctx_of tn (c # cs) i \<and> msg_deliverable ((c # cs) ! i)
          then \<exists>r. r \<noteq> Eagain \<and> cs' ! i = token_written r (put_msg msg ((c # cs) ! i))
          else cs' ! i = (c # cs) ! i"
    proof (intro allI impI)
      fix i assume i: "i < length (c # cs)"
      show "if is_ctx_of tn (c # cs) i \<and> msg_deliverable ((c # cs) ! i)
          then \<exists>r. r \<noteq> Eagain \<and> cs' ! i = token_written r (put_msg msg ((c # cs) ! i))
          else cs' ! i = (c # cs) ! i"
      proof (cases i)
        case 0
        with e iff show ?thesis by simp
      next
        case (Suc j)
        with i have "j < length cs" by simp
        with ih have "if is_ctx_of tn cs j \<and> msg_deliverable (cs ! j)
          then \<exists>r. r \<noteq> Eagain \<and> cs1 ! j = token_written r (put_msg msg (cs ! j))
          else cs1 ! j = cs ! j"
          by blast
        with Suc e iff show ?thesis by simp
      qed
    qed
    from ih e have rest: "length cs' = length (c # cs)"
      "cnt' = cnt + (if \<exists>i. is_ctx_of tn cs i \<and> msg_deliverable (cs ! i) then 1 else 0)"
      "n \<le> n'"
      "completed_writes k n n'
         = (if \<exists>i. is_ctx_of tn cs i \<and> msg_deliverable (cs ! i) then 1 else 0)"
      by simp_all
    from rest nth show ?thesis by (simp only: ex)
  qed
qed

lemma send_msg_specific_returns:
  assumes "\<forall>n. \<exists>j\<ge>n. k j \<noteq> Eagain"
  shows "send_msg_specific k tn msg cs cnt n \<noteq> None"
proof (induction cs)
  case Nil
  then show ?case by simp
next
  case (Cons c cs)
  from send_msg_to_ctx_returns[OF assms] obtain c1 cnt1 n1 where
    "send_msg_to_ctx k msg c cnt n = Some (c1, cnt1, n1)"
    by (metis option.exhaust prod_cases3)
  with Cons show ?case by (auto split: option.splits)
qed

lemma send_msg_Some:
  assumes "send_msg tn msg s = Some (cnt, s')"
  shows "cnt = of_nat (msg_target_count tn (m_thread_ctx s))
   \<and> length (m_thread_ctx s') = length (m_thread_ctx s)
   \<and> (\<forall>i<length (m_thread_ctx s).
        if msg_target tn (m_thread_ctx s) i
        then \<exists>r. r \<noteq> Eagain
               \<and> m_thread_ctx s' ! i = token_written r (put_msg msg (m_thread_ctx s ! i))
        else m_thread_ctx s' ! i = m_thread_ctx s ! i)
   \<and> kernel_clock s \<le> kernel_clock s'
   \<and> completed_writes (kernel_write s) (kernel_clock s) (kernel_clock s')
       = msg_target_count tn (m_thread_ctx s)"
proof (cases "tn = - 1")
  case True
  with assms obtain ts n' where
    a: "send_msg_all (kernel_write s) msg (m_thread_ctx s) 0 (kernel_clock s) = Some (ts, cnt, n')"
    and s': "s' = s\<lparr>m_thread_ctx := ts, kernel_clock := n'\<rparr>"
    by (auto simp: send_msg_def split: option.splits)
  from send_msg_all_Some[OF a] True s' show ?thesis
    by (simp add: msg_target_count_broadcast msg_target_def)
next
  case False
  with assms obtain ts n' where
    a: "send_msg_specific (kernel_write s) tn msg (m_thread_ctx s) 0 (kernel_clock s)
          = Some (ts, cnt, n')"
    and s': "s' = s\<lparr>m_thread_ctx := ts, kernel_clock := n'\<rparr>"
    by (auto simp: send_msg_def split: option.splits)
  have mt: "\<And>i. i < length (m_thread_ctx s) \<Longrightarrow> msg_target tn (m_thread_ctx s) i
      \<longleftrightarrow> is_ctx_of tn (m_thread_ctx s) i \<and> msg_deliverable (m_thread_ctx s ! i)"
    using False by (simp add: msg_target_def)
  from send_msg_specific_Some[OF a] False s' mt show ?thesis
    by (simp add: msg_target_count_specific)
qed

lemma send_msg_no_target:
  assumes "msg_target_count (- 1) (m_thread_ctx s) = 0"
  shows "send_msg (- 1) msg s = Some (0, s)"
proof -
  from assms have "\<forall>c\<in>set (m_thread_ctx s). \<not> msg_deliverable c"
    by (simp add: msg_target_count_broadcast filter_empty_conv)
  from send_msg_all_none_deliverable[OF this] show ?thesis
    by (simp add: send_msg_def)
qed

lemma send_msg_returns:
  assumes "\<forall>n. \<exists>j\<ge>n. kernel_write s j \<noteq> Eagain"
  shows "send_msg tn msg s \<noteq> None"
proof (cases "tn = - 1")
  case True
  from send_msg_all_returns[OF assms, of msg "m_thread_ctx s" 0 "kernel_clock s"] True
  show ?thesis by (auto simp: send_msg_def split: option.splits)
next
  case False
  from send_msg_specific_returns[OF assms, of tn msg "m_thread_ctx s" 0 "kernel_clock s"] False
  show ?thesis by (auto simp: send_msg_def split: option.splits)
qed

lemma completed_answers_append:
  assumes "n \<le> m" and "m \<le> n'"
  shows "completed_answers k n n' = completed_answers k n m @ completed_answers k m n'"
proof -
  from assms have "[n..<n'] = [n..<m] @ [m..<n']"
    by (metis le_Suc_ex upt_add_eq_append)
  then show ?thesis by (simp add: completed_answers_def)
qed

lemma length_completed_answers:
  "length (completed_answers k n n') = completed_writes k n n'"
  by (simp add: completed_answers_def completed_writes_def)

lemma completed_answers_member:
  assumes "r \<in> set (completed_answers k n n')"
  shows "r \<noteq> Eagain \<and> (\<exists>j. n \<le> j \<and> j < n' \<and> k j = r)"
  using assms by (auto simp: completed_answers_def)

lemma send_msg_to_ctx_answer:
  assumes "send_msg_to_ctx k msg c cnt n = Some (c', cnt', n')" and "msg_deliverable c"
  shows "completed_answers k n n' = [k (n' - 1)]"
    and "c' = token_written (k (n' - 1)) (put_msg msg c)"
    and "k (n' - 1) \<noteq> Eagain"
    and "n < n'"
proof -
  from assms obtain r where w: "write_wakeup_token k n = Some (r, n')"
    and c': "c' = token_written r (put_msg msg c)"
    by (auto simp: send_msg_to_ctx_def msg_deliverable_def Let_def split: option.splits)
  note f = write_wakeup_token_Some[OF w]
  from f have r: "k (n' - 1) = r" and ne: "r \<noteq> Eagain" and lt: "n < n'"
    and fl: "filter (\<lambda>j. k j \<noteq> Eagain) [n..<n'] = [n' - 1]"
    by simp_all
  from fl show "completed_answers k n n' = [k (n' - 1)]" by (simp add: completed_answers_def)
  from c' r show "c' = token_written (k (n' - 1)) (put_msg msg c)" by simp
  from r ne show "k (n' - 1) \<noteq> Eagain" by simp
  from lt show "n < n'" .
qed

lemma send_msg_to_ctx_skip:
  assumes "send_msg_to_ctx k msg c cnt n = Some (c', cnt', n')" and "\<not> msg_deliverable c"
  shows "c' = c" and "cnt' = cnt" and "n' = n"
  using assms by (auto simp: send_msg_to_ctx_def msg_deliverable_def)

lemma send_msg_all_answers:
  "send_msg_all k msg cs cnt n = Some (cs', cnt', n') \<Longrightarrow>
     (\<forall>i<length cs. msg_deliverable (cs ! i) \<longrightarrow>
        cs' ! i = token_written
                    (completed_answers k n n' ! length (filter msg_deliverable (take i cs)))
                    (put_msg msg (cs ! i)))
     \<and> (filter msg_deliverable cs = [] \<longrightarrow> n' = n)
     \<and> (filter msg_deliverable cs \<noteq> [] \<longrightarrow> n < n' \<and> k (n' - 1) \<noteq> Eagain)"
proof (induction cs arbitrary: cs' cnt cnt' n n')
  case Nil
  then show ?case by simp
next
  case (Cons c cs)
  from Cons.prems obtain c1 cnt1 n1 cs1 where
    h: "send_msg_to_ctx k msg c cnt n = Some (c1, cnt1, n1)"
    and t: "send_msg_all k msg cs cnt1 n1 = Some (cs1, cnt', n')"
    and e: "cs' = c1 # cs1"
    by (auto split: option.splits)
  note ih = Cons.IH[OF t]
  from ih have ih1: "\<forall>i<length cs. msg_deliverable (cs ! i) \<longrightarrow>
        cs1 ! i = token_written
                    (completed_answers k n1 n' ! length (filter msg_deliverable (take i cs)))
                    (put_msg msg (cs ! i))"
    and ih2: "filter msg_deliverable cs = [] \<longrightarrow> n' = n1"
    and ih3: "filter msg_deliverable cs \<noteq> [] \<longrightarrow> n1 < n' \<and> k (n' - 1) \<noteq> Eagain"
    by blast+
  from send_msg_all_Some[OF t] have le1: "n1 \<le> n'" by simp
  show ?case
  proof (cases "msg_deliverable c")
    case True
    note a = send_msg_to_ctx_answer[OF h True]
    from a(4) le1 have ca: "completed_answers k n n' = k (n1 - 1) # completed_answers k n1 n'"
      using completed_answers_append[of n n1 n' k] a(1) by simp
    have nth: "\<forall>i<length (c # cs). msg_deliverable ((c # cs) ! i) \<longrightarrow>
        cs' ! i = token_written
                    (completed_answers k n n' ! length (filter msg_deliverable (take i (c # cs))))
                    (put_msg msg ((c # cs) ! i))"
    proof (intro allI impI)
      fix i assume i: "i < length (c # cs)" and d: "msg_deliverable ((c # cs) ! i)"
      show "cs' ! i = token_written
                    (completed_answers k n n' ! length (filter msg_deliverable (take i (c # cs))))
                    (put_msg msg ((c # cs) ! i))"
      proof (cases i)
        case 0
        with e a(2) ca show ?thesis by simp
      next
        case (Suc j)
        with i d have "j < length cs" "msg_deliverable (cs ! j)" by simp_all
        with ih1 have "cs1 ! j = token_written
                    (completed_answers k n1 n' ! length (filter msg_deliverable (take j cs)))
                    (put_msg msg (cs ! j))"
          by blast
        with Suc e ca True show ?thesis by simp
      qed
    qed
    have clock: "n < n' \<and> k (n' - 1) \<noteq> Eagain"
    proof (cases "filter msg_deliverable cs = []")
      case True
      with ih2 have "n' = n1" by blast
      with a(3,4) show ?thesis by simp
    next
      case False
      with ih3 have "n1 < n'" "k (n' - 1) \<noteq> Eagain" by blast+
      with a(4) show ?thesis by simp
    qed
    from True have ne: "filter msg_deliverable (c # cs) \<noteq> []" by simp
    from nth clock ne show ?thesis by blast
  next
    case False
    note a = send_msg_to_ctx_skip[OF h False]
    have nth: "\<forall>i<length (c # cs). msg_deliverable ((c # cs) ! i) \<longrightarrow>
        cs' ! i = token_written
                    (completed_answers k n n' ! length (filter msg_deliverable (take i (c # cs))))
                    (put_msg msg ((c # cs) ! i))"
    proof (intro allI impI)
      fix i assume i: "i < length (c # cs)" and d: "msg_deliverable ((c # cs) ! i)"
      show "cs' ! i = token_written
                    (completed_answers k n n' ! length (filter msg_deliverable (take i (c # cs))))
                    (put_msg msg ((c # cs) ! i))"
      proof (cases i)
        case 0
        with d False show ?thesis by simp
      next
        case (Suc j)
        with i d have "j < length cs" "msg_deliverable (cs ! j)" by simp_all
        with ih1 have "cs1 ! j = token_written
                    (completed_answers k n1 n' ! length (filter msg_deliverable (take j cs)))
                    (put_msg msg (cs ! j))"
          by blast
        with Suc e a(3) False show ?thesis by simp
      qed
    qed
    from False have fe: "filter msg_deliverable (c # cs) = filter msg_deliverable cs" by simp
    from ih2 ih3 a(3) have "filter msg_deliverable cs = [] \<longrightarrow> n' = n"
      and "filter msg_deliverable cs \<noteq> [] \<longrightarrow> n < n' \<and> k (n' - 1) \<noteq> Eagain"
      by simp_all
    with nth show ?thesis unfolding fe by blast
  qed
qed

lemma send_msg_specific_answers:
  "send_msg_specific k tn msg cs cnt n = Some (cs', cnt', n') \<Longrightarrow>
     (\<forall>i<length cs. is_ctx_of tn cs i \<and> msg_deliverable (cs ! i) \<longrightarrow>
        cs' ! i = token_written (completed_answers k n n' ! 0) (put_msg msg (cs ! i))
        \<and> n < n' \<and> k (n' - 1) \<noteq> Eagain)
     \<and> (\<not> (\<exists>i. is_ctx_of tn cs i \<and> msg_deliverable (cs ! i)) \<longrightarrow> n' = n)"
proof (induction cs arbitrary: cs')
  case Nil
  then show ?case by simp
next
  case (Cons c cs)
  show ?case
  proof (cases "m_thread_num c = tn")
    case True
    with Cons.prems obtain c1 where
      h: "send_msg_to_ctx k msg c cnt n = Some (c1, cnt', n')" and e: "cs' = c1 # cs"
      by (auto split: option.splits)
    have iff: "\<And>i. is_ctx_of tn (c # cs) i \<longleftrightarrow> i = 0"
      using True by (simp add: is_ctx_of_Cons split: nat.splits)
    show ?thesis
    proof (cases "msg_deliverable c")
      case d: True
      note a = send_msg_to_ctx_answer[OF h d]
      have "\<forall>i<length (c # cs). is_ctx_of tn (c # cs) i \<and> msg_deliverable ((c # cs) ! i) \<longrightarrow>
        cs' ! i = token_written (completed_answers k n n' ! 0) (put_msg msg ((c # cs) ! i))
        \<and> n < n' \<and> k (n' - 1) \<noteq> Eagain"
        using a e by (simp add: iff)
      moreover have "\<exists>i. is_ctx_of tn (c # cs) i \<and> msg_deliverable ((c # cs) ! i)"
        using d iff by (intro exI[of _ 0]) simp
      ultimately show ?thesis by blast
    next
      case nd: False
      note a = send_msg_to_ctx_skip[OF h nd]
      have "\<forall>i<length (c # cs). is_ctx_of tn (c # cs) i \<and> msg_deliverable ((c # cs) ! i) \<longrightarrow>
        cs' ! i = token_written (completed_answers k n n' ! 0) (put_msg msg ((c # cs) ! i))
        \<and> n < n' \<and> k (n' - 1) \<noteq> Eagain"
        using nd by (simp add: iff)
      with a(3) show ?thesis by blast
    qed
  next
    case False
    with Cons.prems obtain cs1 where
      t: "send_msg_specific k tn msg cs cnt n = Some (cs1, cnt', n')" and e: "cs' = c # cs1"
      by (auto split: option.splits)
    note ih = Cons.IH[OF t]
    have iff: "\<And>i. is_ctx_of tn (c # cs) i \<longleftrightarrow> (\<exists>j. i = Suc j \<and> is_ctx_of tn cs j)"
      using False by (simp add: is_ctx_of_Cons split: nat.splits)
    have nth: "\<forall>i<length (c # cs). is_ctx_of tn (c # cs) i \<and> msg_deliverable ((c # cs) ! i) \<longrightarrow>
        cs' ! i = token_written (completed_answers k n n' ! 0) (put_msg msg ((c # cs) ! i))
        \<and> n < n' \<and> k (n' - 1) \<noteq> Eagain"
    proof (intro allI impI)
      fix i assume i: "i < length (c # cs)"
        and d: "is_ctx_of tn (c # cs) i \<and> msg_deliverable ((c # cs) ! i)"
      from d iff obtain j where j: "i = Suc j" "is_ctx_of tn cs j" by blast
      with i d have "j < length cs" "msg_deliverable (cs ! j)" by simp_all
      with ih j(2) have "cs1 ! j = token_written (completed_answers k n n' ! 0) (put_msg msg (cs ! j))
        \<and> n < n' \<and> k (n' - 1) \<noteq> Eagain"
        by blast
      with j e show "cs' ! i = token_written (completed_answers k n n' ! 0) (put_msg msg ((c # cs) ! i))
        \<and> n < n' \<and> k (n' - 1) \<noteq> Eagain"
        by simp
    qed
    have "(\<exists>i. is_ctx_of tn (c # cs) i \<and> msg_deliverable ((c # cs) ! i))
        \<longleftrightarrow> (\<exists>i. is_ctx_of tn cs i \<and> msg_deliverable (cs ! i))"
      using iff by auto
    with ih have "\<not> (\<exists>i. is_ctx_of tn (c # cs) i \<and> msg_deliverable ((c # cs) ! i)) \<longrightarrow> n' = n"
      by blast
    with nth show ?thesis by blast
  qed
qed

lemma msg_target_rank_broadcast:
  assumes "i \<le> length ts"
  shows "msg_target_rank (- 1) ts i = length (filter msg_deliverable (take i ts))"
proof -
  have "filter (msg_target (- 1) ts) [0..<i]
      = filter (\<lambda>j. msg_deliverable (take i ts ! j)) [0..<i]"
    using assms by (intro filter_cong) (simp_all add: msg_target_def)
  moreover from assms have "length (take i ts) = i" by simp
  ultimately show ?thesis
    using length_filter_nth[of msg_deliverable "take i ts"]
    by (simp add: msg_target_rank_def)
qed

lemma msg_target_rank_specific:
  assumes "tn \<noteq> - 1" and "msg_target tn ts i"
  shows "msg_target_rank tn ts i = 0"
proof -
  have "\<not> msg_target tn ts j" if "j < i" for j
  proof
    assume "msg_target tn ts j"
    with assms have "is_ctx_of tn ts j" "is_ctx_of tn ts i" by (simp_all add: msg_target_def)
    from is_ctx_of_unique[OF this] that show False by simp
  qed
  then have "filter (msg_target tn ts) [0..<i] = []"
    by (simp add: filter_empty_conv)
  then show ?thesis by (simp add: msg_target_rank_def)
qed

lemma msg_target_rank_less:
  assumes "msg_target tn ts i"
  shows "msg_target_rank tn ts i < msg_target_count tn ts"
proof -
  from assms have i: "i < length ts" by (simp add: msg_target_def)
  then have "[0..<length ts] = [0..<i] @ i # [Suc i..<length ts]"
    by (metis upt_conv_Cons upt_add_eq_append le_add_diff_inverse less_imp_le_nat zero_le)
  then have "filter (msg_target tn ts) [0..<length ts]
      = filter (msg_target tn ts) [0..<i] @ i # filter (msg_target tn ts) [Suc i..<length ts]"
    using assms by simp
  then show ?thesis by (simp add: msg_target_rank_def msg_target_count_def)
qed

lemma send_msg_answers:
  assumes "send_msg tn msg s = Some (cnt, s')"
  shows "(\<forall>i<length (m_thread_ctx s). msg_target tn (m_thread_ctx s) i \<longrightarrow>
            m_thread_ctx s' ! i
              = token_written
                  (completed_answers (kernel_write s) (kernel_clock s) (kernel_clock s')
                     ! msg_target_rank tn (m_thread_ctx s) i)
                  (put_msg msg (m_thread_ctx s ! i)))
     \<and> (msg_target_count tn (m_thread_ctx s) = 0 \<longrightarrow> kernel_clock s' = kernel_clock s)
     \<and> (0 < msg_target_count tn (m_thread_ctx s) \<longrightarrow>
          kernel_clock s < kernel_clock s' \<and> kernel_write s (kernel_clock s' - 1) \<noteq> Eagain)
     \<and> s' = s\<lparr>m_thread_ctx := m_thread_ctx s', kernel_clock := kernel_clock s'\<rparr>"
proof (cases "tn = - 1")
  case True
  with assms obtain ts n' where
    a: "send_msg_all (kernel_write s) msg (m_thread_ctx s) 0 (kernel_clock s) = Some (ts, cnt, n')"
    and s': "s' = s\<lparr>m_thread_ctx := ts, kernel_clock := n'\<rparr>"
    by (auto simp: send_msg_def split: option.splits)
  note r = send_msg_all_answers[OF a]
  have nth: "\<forall>i<length (m_thread_ctx s). msg_target tn (m_thread_ctx s) i \<longrightarrow>
            m_thread_ctx s' ! i
              = token_written
                  (completed_answers (kernel_write s) (kernel_clock s) (kernel_clock s')
                     ! msg_target_rank tn (m_thread_ctx s) i)
                  (put_msg msg (m_thread_ctx s ! i))"
  proof (intro allI impI)
    fix i assume i: "i < length (m_thread_ctx s)" and t: "msg_target tn (m_thread_ctx s) i"
    from t have d: "msg_deliverable (m_thread_ctx s ! i)" by (simp add: msg_target_def)
    from i have rk: "msg_target_rank (- 1) (m_thread_ctx s) i
        = length (filter msg_deliverable (take i (m_thread_ctx s)))"
      by (intro msg_target_rank_broadcast) simp
    from r i d have "ts ! i = token_written
        (completed_answers (kernel_write s) (kernel_clock s) n'
           ! length (filter msg_deliverable (take i (m_thread_ctx s))))
        (put_msg msg (m_thread_ctx s ! i))"
      by blast
    with rk True s' show "m_thread_ctx s' ! i
              = token_written
                  (completed_answers (kernel_write s) (kernel_clock s) (kernel_clock s')
                     ! msg_target_rank tn (m_thread_ctx s) i)
                  (put_msg msg (m_thread_ctx s ! i))"
      by simp
  qed
  have c: "msg_target_count tn (m_thread_ctx s) = length (filter msg_deliverable (m_thread_ctx s))"
    using True by (simp add: msg_target_count_broadcast)
  from r have "filter msg_deliverable (m_thread_ctx s) = [] \<longrightarrow> n' = kernel_clock s"
    and "filter msg_deliverable (m_thread_ctx s) \<noteq> [] \<longrightarrow>
           kernel_clock s < n' \<and> kernel_write s (n' - 1) \<noteq> Eagain"
    by blast+
  with c s' have c0: "msg_target_count tn (m_thread_ctx s) = 0 \<longrightarrow> kernel_clock s' = kernel_clock s"
    and c1: "0 < msg_target_count tn (m_thread_ctx s) \<longrightarrow>
          kernel_clock s < kernel_clock s' \<and> kernel_write s (kernel_clock s' - 1) \<noteq> Eagain"
    by simp_all
  from s' have fr: "s' = s\<lparr>m_thread_ctx := m_thread_ctx s', kernel_clock := kernel_clock s'\<rparr>"
    by simp
  from nth c0 c1 fr show ?thesis by (intro conjI) assumption+
next
  case False
  with assms obtain ts n' where
    a: "send_msg_specific (kernel_write s) tn msg (m_thread_ctx s) 0 (kernel_clock s)
          = Some (ts, cnt, n')"
    and s': "s' = s\<lparr>m_thread_ctx := ts, kernel_clock := n'\<rparr>"
    by (auto simp: send_msg_def split: option.splits)
  note r = send_msg_specific_answers[OF a]
  have mt: "\<And>i. msg_target tn (m_thread_ctx s) i
      \<longleftrightarrow> is_ctx_of tn (m_thread_ctx s) i \<and> msg_deliverable (m_thread_ctx s ! i)"
    using False by (auto simp: msg_target_def is_ctx_of_def)
  have nth: "\<forall>i<length (m_thread_ctx s). msg_target tn (m_thread_ctx s) i \<longrightarrow>
            m_thread_ctx s' ! i
              = token_written
                  (completed_answers (kernel_write s) (kernel_clock s) (kernel_clock s')
                     ! msg_target_rank tn (m_thread_ctx s) i)
                  (put_msg msg (m_thread_ctx s ! i))"
  proof (intro allI impI)
    fix i assume i: "i < length (m_thread_ctx s)" and t: "msg_target tn (m_thread_ctx s) i"
    from msg_target_rank_specific[OF False t] have rk: "msg_target_rank tn (m_thread_ctx s) i = 0" .
    from t mt have "is_ctx_of tn (m_thread_ctx s) i \<and> msg_deliverable (m_thread_ctx s ! i)" by blast
    with r i have "ts ! i = token_written
        (completed_answers (kernel_write s) (kernel_clock s) n' ! 0)
        (put_msg msg (m_thread_ctx s ! i))"
      by blast
    with rk s' show "m_thread_ctx s' ! i
              = token_written
                  (completed_answers (kernel_write s) (kernel_clock s) (kernel_clock s')
                     ! msg_target_rank tn (m_thread_ctx s) i)
                  (put_msg msg (m_thread_ctx s ! i))"
      by simp
  qed
  have c: "msg_target_count tn (m_thread_ctx s)
      = (if \<exists>i. is_ctx_of tn (m_thread_ctx s) i \<and> msg_deliverable (m_thread_ctx s ! i) then 1 else 0)"
    by (rule msg_target_count_specific[OF False])
  have c0: "msg_target_count tn (m_thread_ctx s) = 0 \<longrightarrow> kernel_clock s' = kernel_clock s"
  proof
    assume "msg_target_count tn (m_thread_ctx s) = 0"
    with c have "\<not> (\<exists>i. is_ctx_of tn (m_thread_ctx s) i \<and> msg_deliverable (m_thread_ctx s ! i))"
      by (simp split: if_splits)
    with r have "n' = kernel_clock s" by blast
    with s' show "kernel_clock s' = kernel_clock s" by simp
  qed
  have c1: "0 < msg_target_count tn (m_thread_ctx s) \<longrightarrow>
          kernel_clock s < kernel_clock s' \<and> kernel_write s (kernel_clock s' - 1) \<noteq> Eagain"
  proof
    assume "0 < msg_target_count tn (m_thread_ctx s)"
    with c obtain i where i: "is_ctx_of tn (m_thread_ctx s) i" "msg_deliverable (m_thread_ctx s ! i)"
      by (auto split: if_splits)
    then have "i < length (m_thread_ctx s)" by (simp add: is_ctx_of_def)
    with r i have "kernel_clock s < n' \<and> kernel_write s (n' - 1) \<noteq> Eagain" by blast
    with s' show "kernel_clock s < kernel_clock s' \<and> kernel_write s (kernel_clock s' - 1) \<noteq> Eagain"
      by simp
  qed
  from s' have fr: "s' = s\<lparr>m_thread_ctx := m_thread_ctx s', kernel_clock := kernel_clock s'\<rparr>"
    by simp
  from nth c0 c1 fr show ?thesis by (intro conjI) assumption+
qed

text \<open>
  C5. \<open>send_msg thread_num msg\<close> delivers to exactly the threads that have a message
  descriptor and are io threads, all of them for \<open>thread_num = -1\<close> and otherwise
  the one numbered \<open>thread_num\<close>; every other context and every other field of the
  manager is unchanged. For a thread delivered to, the message is put at the end of
  its queue and then the token is written, again for as long as the kernel answers
  \<^verbatim>\<open>EAGAIN\<close>: the writes of the call that the kernel answers otherwise are as many
  as the threads delivered to, the call ends with the last of them, and the thread
  that is the \<open>r\<close>-th to be delivered to gets the \<open>r\<close>-th of these answers. Its token
  count goes up by one when that answer is a success, which it is on every kernel
  that fails a write with \<^verbatim>\<open>EAGAIN\<close> only, and stays when the write ended with
  another error. The return value is the number of threads delivered to (as a
  \<^verbatim>\<open>uint32_t\<close>). A broadcast without a thread to deliver to returns 0 and changes
  nothing, whatever the kernel does; and on a kernel that does not answer
  \<^verbatim>\<open>EAGAIN\<close> for ever every call returns.
\<close>

theorem send_msg_delivery:
  "(send_msg tn msg s = Some (cnt, s') \<longrightarrow>
      cnt = of_nat (msg_target_count tn (m_thread_ctx s))
      \<and> length (m_thread_ctx s') = length (m_thread_ctx s)
      \<and> (\<forall>i<length (m_thread_ctx s).
           if msg_target tn (m_thread_ctx s) i
           then msg_target_rank tn (m_thread_ctx s) i
                  < length (completed_answers (kernel_write s) (kernel_clock s) (kernel_clock s'))
                \<and> m_thread_ctx s' ! i
                    = token_written
                        (completed_answers (kernel_write s) (kernel_clock s) (kernel_clock s')
                           ! msg_target_rank tn (m_thread_ctx s) i)
                        (put_msg msg (m_thread_ctx s ! i))
                \<and> m_msg_q (m_thread_ctx s' ! i) = m_msg_q (m_thread_ctx s ! i) @ [msg]
                \<and> m_msg_fd_tokens (m_thread_ctx s' ! i)
                    = m_msg_fd_tokens (m_thread_ctx s ! i)
                      + (if completed_answers (kernel_write s) (kernel_clock s) (kernel_clock s')
                              ! msg_target_rank tn (m_thread_ctx s) i = Written
                         then 1 else 0)
           else m_thread_ctx s' ! i = m_thread_ctx s ! i)
      \<and> kernel_clock s \<le> kernel_clock s'
      \<and> length (completed_answers (kernel_write s) (kernel_clock s) (kernel_clock s'))
          = msg_target_count tn (m_thread_ctx s)
      \<and> completed_writes (kernel_write s) (kernel_clock s) (kernel_clock s')
          = msg_target_count tn (m_thread_ctx s)
      \<and> (msg_target_count tn (m_thread_ctx s) = 0 \<longrightarrow> kernel_clock s' = kernel_clock s)
      \<and> (0 < msg_target_count tn (m_thread_ctx s) \<longrightarrow>
           kernel_clock s < kernel_clock s'
           \<and> kernel_write s (kernel_clock s' - 1) \<noteq> Eagain)
      \<and> s' = s\<lparr>m_thread_ctx := m_thread_ctx s', kernel_clock := kernel_clock s'\<rparr>
      \<and> ((\<forall>j. kernel_write s j \<noteq> Failed) \<longrightarrow>
           (\<forall>i<length (m_thread_ctx s). msg_target tn (m_thread_ctx s) i \<longrightarrow>
              m_thread_ctx s' ! i
                = (m_thread_ctx s ! i)
                    \<lparr>m_msg_q := m_msg_q (m_thread_ctx s ! i) @ [msg],
                     m_msg_fd_tokens := m_msg_fd_tokens (m_thread_ctx s ! i) + 1\<rparr>)))
   \<and> (msg_target_count (- 1) (m_thread_ctx s) = 0 \<longrightarrow> send_msg (- 1) msg s = Some (0, s))
   \<and> ((\<forall>n. \<exists>j\<ge>n. kernel_write s j \<noteq> Eagain) \<longrightarrow> send_msg tn msg s \<noteq> None)"
proof (intro conjI impI)
  assume h: "send_msg tn msg s = Some (cnt, s')"
  let ?ts = "m_thread_ctx s"
  let ?as = "completed_answers (kernel_write s) (kernel_clock s) (kernel_clock s')"
  note r = send_msg_Some[OF h]
  note a = send_msg_answers[OF h]
  from r show "cnt = of_nat (msg_target_count tn ?ts)" by blast
  from r show "length (m_thread_ctx s') = length ?ts" by blast
  from r show "kernel_clock s \<le> kernel_clock s'" by blast
  from r show cw: "completed_writes (kernel_write s) (kernel_clock s) (kernel_clock s')
          = msg_target_count tn ?ts" by blast
  then show la: "length ?as = msg_target_count tn ?ts"
    by (simp only: length_completed_answers)
  from a show "s' = s\<lparr>m_thread_ctx := m_thread_ctx s', kernel_clock := kernel_clock s'\<rparr>"
    by blast
  from r have other: "\<forall>i<length ?ts.
        if msg_target tn ?ts i
        then \<exists>r. r \<noteq> Eagain
               \<and> m_thread_ctx s' ! i = token_written r (put_msg msg (?ts ! i))
        else m_thread_ctx s' ! i = ?ts ! i"
    by blast
  from a have nth: "\<forall>i<length ?ts. msg_target tn ?ts i \<longrightarrow>
            m_thread_ctx s' ! i = token_written (?as ! msg_target_rank tn ?ts i) (put_msg msg (?ts ! i))"
    by blast
  have target: "msg_target_rank tn ?ts i < length ?as
      \<and> m_thread_ctx s' ! i = token_written (?as ! msg_target_rank tn ?ts i) (put_msg msg (?ts ! i))
      \<and> m_msg_q (m_thread_ctx s' ! i) = m_msg_q (?ts ! i) @ [msg]
      \<and> m_msg_fd_tokens (m_thread_ctx s' ! i)
          = m_msg_fd_tokens (?ts ! i) + (if ?as ! msg_target_rank tn ?ts i = Written then 1 else 0)"
    if i: "i < length ?ts" and t: "msg_target tn ?ts i" for i
  proof -
    from msg_target_rank_less[OF t] la have lt: "msg_target_rank tn ?ts i < length ?as" by simp
    from nth i t have eq: "m_thread_ctx s' ! i
        = token_written (?as ! msg_target_rank tn ?ts i) (put_msg msg (?ts ! i))"
      by blast
    then have q: "m_msg_q (m_thread_ctx s' ! i) = m_msg_q (?ts ! i) @ [msg]"
      and tk: "m_msg_fd_tokens (m_thread_ctx s' ! i)
          = m_msg_fd_tokens (?ts ! i) + (if ?as ! msg_target_rank tn ?ts i = Written then 1 else 0)"
      by (simp_all add: token_written_def put_msg_def)
    from lt eq q tk show ?thesis by (intro conjI) assumption+
  qed
  show "\<forall>i<length ?ts.
           if msg_target tn ?ts i
           then msg_target_rank tn ?ts i < length ?as
                \<and> m_thread_ctx s' ! i
                    = token_written (?as ! msg_target_rank tn ?ts i) (put_msg msg (?ts ! i))
                \<and> m_msg_q (m_thread_ctx s' ! i) = m_msg_q (?ts ! i) @ [msg]
                \<and> m_msg_fd_tokens (m_thread_ctx s' ! i)
                    = m_msg_fd_tokens (?ts ! i)
                      + (if ?as ! msg_target_rank tn ?ts i = Written then 1 else 0)
           else m_thread_ctx s' ! i = ?ts ! i"
  proof (intro allI impI)
    fix i assume i: "i < length ?ts"
    show "if msg_target tn ?ts i
           then msg_target_rank tn ?ts i < length ?as
                \<and> m_thread_ctx s' ! i
                    = token_written (?as ! msg_target_rank tn ?ts i) (put_msg msg (?ts ! i))
                \<and> m_msg_q (m_thread_ctx s' ! i) = m_msg_q (?ts ! i) @ [msg]
                \<and> m_msg_fd_tokens (m_thread_ctx s' ! i)
                    = m_msg_fd_tokens (?ts ! i)
                      + (if ?as ! msg_target_rank tn ?ts i = Written then 1 else 0)
           else m_thread_ctx s' ! i = ?ts ! i"
    proof (cases "msg_target tn ?ts i")
      case True
      show ?thesis unfolding if_P[OF True] by (rule target[OF i True])
    next
      case False
      note o_i = other[rule_format, OF i]
      from o_i[unfolded if_not_P[OF False]] show ?thesis by (simp only: if_not_P[OF False])
    qed
  qed
  from a show "kernel_clock s' = kernel_clock s" if "msg_target_count tn ?ts = 0"
    using that by blast
  from a show "kernel_clock s < kernel_clock s'" if "0 < msg_target_count tn ?ts"
    using that by blast
  from a show "kernel_write s (kernel_clock s' - 1) \<noteq> Eagain" if "0 < msg_target_count tn ?ts"
    using that by blast
  show "\<forall>i<length ?ts. msg_target tn ?ts i \<longrightarrow>
              m_thread_ctx s' ! i
                = (?ts ! i)\<lparr>m_msg_q := m_msg_q (?ts ! i) @ [msg],
                            m_msg_fd_tokens := m_msg_fd_tokens (?ts ! i) + 1\<rparr>"
    if nf: "\<forall>j. kernel_write s j \<noteq> Failed"
  proof (intro allI impI)
    fix i assume i: "i < length ?ts" and t: "msg_target tn ?ts i"
    note f = target[OF i t]
    from f have lt: "msg_target_rank tn ?ts i < length ?as" by (rule conjunct1)
    then have "?as ! msg_target_rank tn ?ts i \<in> set ?as" by (rule nth_mem)
    from completed_answers_member[OF this] nf
    have "?as ! msg_target_rank tn ?ts i \<noteq> Eagain" "?as ! msg_target_rank tn ?ts i \<noteq> Failed"
      by auto
    then have w: "?as ! msg_target_rank tn ?ts i = Written"
      by (cases "?as ! msg_target_rank tn ?ts i") simp_all
    from f have "m_thread_ctx s' ! i
        = token_written (?as ! msg_target_rank tn ?ts i) (put_msg msg (?ts ! i))"
      by blast
    then show "m_thread_ctx s' ! i
                = (?ts ! i)\<lparr>m_msg_q := m_msg_q (?ts ! i) @ [msg],
                            m_msg_fd_tokens := m_msg_fd_tokens (?ts ! i) + 1\<rparr>"
      unfolding w by (simp add: token_written_def put_msg_def)
  qed
next
  assume "msg_target_count (- 1) (m_thread_ctx s) = 0"
  then show "send_msg (- 1) msg s = Some (0, s)" by (rule send_msg_no_target)
next
  assume "\<forall>n. \<exists>j\<ge>n. kernel_write s j \<noteq> Eagain"
  then show "send_msg tn msg s \<noteq> None" by (rule send_msg_returns)
qed

theorem send_msg_delivery_witness:
  "(\<exists>s'. send_msg (- 1) (iomgr_msg_of_type WAKEUP) example_busy = Some (1, s')
      \<and> kernel_clock s' = 3
      \<and> length (m_thread_ctx s') = 2
      \<and> m_thread_ctx s' ! 0
          = (example_ctx 0 100 True)\<lparr>m_msg_q := [iomgr_msg_of_type WAKEUP], m_msg_fd_tokens := 1\<rparr>
      \<and> m_msg_fd_tokens (example_ctx 0 100 True) = 0
      \<and> m_thread_ctx s' ! 1 = example_ctx 1 10 False)
   \<and> send_msg (- 1) (iomgr_msg_of_type WAKEUP) example_iomgr = Some (0, example_iomgr)
   \<and> send_msg 0 (iomgr_msg_of_type WAKEUP) example_iomgr \<noteq> None"
proof -
  let ?m = "iomgr_msg_of_type WAKEUP"
  have fb: "\<forall>n. \<exists>j\<ge>n. kernel_write example_busy j \<noteq> Eagain"
  proof
    fix n :: nat
    have "n \<le> n + 2 \<and> kernel_write example_busy (n + 2) \<noteq> Eagain"
      by (simp add: example_busy_def example_iomgr_def)
    then show "\<exists>j\<ge>n. kernel_write example_busy j \<noteq> Eagain" by blast
  qed
  from send_msg_delivery[of "- 1" ?m example_busy 1 example_busy,
         THEN conjunct2, THEN conjunct2, THEN mp, OF fb]
  have "send_msg (- 1) ?m example_busy \<noteq> None" .
  then obtain cnt s' where h: "send_msg (- 1) ?m example_busy = Some (cnt, s')"
    by (cases "send_msg (- 1) ?m example_busy") auto
  note inst = send_msg_delivery[of "- 1" ?m example_busy cnt s', THEN conjunct1, rule_format, OF h]
  have t0: "msg_target (- 1) (m_thread_ctx example_busy) 0"
    and t1: "\<not> msg_target (- 1) (m_thread_ctx example_busy) 1"
    and l: "length (m_thread_ctx example_busy) = 2"
    and c: "msg_target_count (- 1) (m_thread_ctx example_busy) = 1"
    and nf: "\<forall>j. kernel_write example_busy j \<noteq> Failed"
    by (simp_all add: msg_target_def msg_deliverable_def example_busy_def example_ctx_def
          example_iomgr_def msg_target_count_def upt_rec[of 0])
  from inst c have cnt: "cnt = 1" by simp
  from inst have len: "length (m_thread_ctx s') = length (m_thread_ctx example_busy)"
    by blast
  from inst have nth: "\<forall>i<length (m_thread_ctx example_busy).
           if msg_target (- 1) (m_thread_ctx example_busy) i
           then msg_target_rank (- 1) (m_thread_ctx example_busy) i
                  < length (completed_answers (kernel_write example_busy)
                              (kernel_clock example_busy) (kernel_clock s'))
                \<and> m_thread_ctx s' ! i
                    = token_written
                        (completed_answers (kernel_write example_busy)
                              (kernel_clock example_busy) (kernel_clock s')
                           ! msg_target_rank (- 1) (m_thread_ctx example_busy) i)
                        (put_msg ?m (m_thread_ctx example_busy ! i))
                \<and> m_msg_q (m_thread_ctx s' ! i) = m_msg_q (m_thread_ctx example_busy ! i) @ [?m]
                \<and> m_msg_fd_tokens (m_thread_ctx s' ! i)
                    = m_msg_fd_tokens (m_thread_ctx example_busy ! i)
                      + (if completed_answers (kernel_write example_busy)
                              (kernel_clock example_busy) (kernel_clock s')
                              ! msg_target_rank (- 1) (m_thread_ctx example_busy) i = Written
                         then 1 else 0)
           else m_thread_ctx s' ! i = m_thread_ctx example_busy ! i"
    by (elim conjE)
  from inst have "(\<forall>j. kernel_write example_busy j \<noteq> Failed) \<longrightarrow>
           (\<forall>i<length (m_thread_ctx example_busy). msg_target (- 1) (m_thread_ctx example_busy) i \<longrightarrow>
              m_thread_ctx s' ! i
                = (m_thread_ctx example_busy ! i)
                    \<lparr>m_msg_q := m_msg_q (m_thread_ctx example_busy ! i) @ [?m],
                     m_msg_fd_tokens := m_msg_fd_tokens (m_thread_ctx example_busy ! i) + 1\<rparr>)"
    by (elim conjE)
  with nf l t0 have "m_thread_ctx s' ! 0
                = (m_thread_ctx example_busy ! 0)
                    \<lparr>m_msg_q := m_msg_q (m_thread_ctx example_busy ! 0) @ [?m],
                     m_msg_fd_tokens := m_msg_fd_tokens (m_thread_ctx example_busy ! 0) + 1\<rparr>"
    by simp
  then have c0: "m_thread_ctx s' ! 0
          = (example_ctx 0 100 True)\<lparr>m_msg_q := [?m], m_msg_fd_tokens := 1\<rparr>"
    by (simp add: example_busy_def example_ctx_def)
  have z0: "m_msg_fd_tokens (example_ctx 0 100 True) = 0" by (simp add: example_ctx_def)
  from l have one: "1 < length (m_thread_ctx example_busy)" by simp
  note n1 = nth[rule_format, OF one]
  from n1[unfolded if_not_P[OF t1]] have c1: "m_thread_ctx s' ! 1 = example_ctx 1 10 False"
    by (simp add: example_busy_def)
  from inst c have k1: "kernel_clock example_busy < kernel_clock s'"
    and k2: "kernel_write example_busy (kernel_clock s' - 1) \<noteq> Eagain"
    and k3: "completed_writes (kernel_write example_busy) (kernel_clock example_busy)
               (kernel_clock s') = 1"
    by simp_all
  have k: "kernel_clock s' = 3"
  proof -
    from k2 have ge: "3 \<le> kernel_clock s'"
      by (simp add: example_busy_def example_iomgr_def split: if_splits)
    have "\<not> 3 < kernel_clock s'"
    proof
      assume gt: "3 < kernel_clock s'"
      then have "[0..<kernel_clock s'] = [0..<2] @ [2, 3] @ [4..<kernel_clock s']"
        by (metis (no_types, lifting) append_Cons append_Nil le_add_diff_inverse less_imp_le_nat
              numeral_Bit0 numeral_Bit1 one_add_one upt_add_eq_append upt_conv_Cons zero_le
              Suc_numeral add_2_eq_Suc' less_trans_Suc numeral_2_eq_2 numeral_3_eq_3
              semiring_norm(2) semiring_norm(8) zero_less_numeral Suc_1 lessI)
      then have "2 \<le> completed_writes (kernel_write example_busy) 0 (kernel_clock s')"
        by (simp add: completed_writes_def example_busy_def example_iomgr_def)
      with k3 show False by (simp add: example_busy_def example_iomgr_def)
    qed
    with ge show ?thesis by simp
  qed
  from len l have l2: "length (m_thread_ctx s') = 2" by simp
  from h cnt have h1: "send_msg (- 1) ?m example_busy = Some (1, s')" by simp
  from h1 k l2 c0 z0 c1 have 1: "\<exists>s'. send_msg (- 1) ?m example_busy = Some (1, s')
      \<and> kernel_clock s' = 3
      \<and> length (m_thread_ctx s') = 2
      \<and> m_thread_ctx s' ! 0
          = (example_ctx 0 100 True)\<lparr>m_msg_q := [?m], m_msg_fd_tokens := 1\<rparr>
      \<and> m_msg_fd_tokens (example_ctx 0 100 True) = 0
      \<and> m_thread_ctx s' ! 1 = example_ctx 1 10 False"
    by (intro exI[of _ s'] conjI) assumption+
  have z: "msg_target_count (- 1) (m_thread_ctx example_iomgr) = 0"
    by (simp add: msg_target_count_def example_iomgr_def)
  from send_msg_delivery[of 0 ?m example_iomgr 0 example_iomgr,
         THEN conjunct2, THEN conjunct1, rule_format, OF z]
  have 2: "send_msg (- 1) ?m example_iomgr = Some (0, example_iomgr)" .
  have f: "\<forall>n. \<exists>j\<ge>n. kernel_write example_iomgr j \<noteq> Eagain"
    by (auto simp: example_iomgr_def)
  from send_msg_delivery[of 0 ?m example_iomgr 0 example_iomgr,
         THEN conjunct2, THEN conjunct2, THEN mp, OF f]
  have 3: "send_msg 0 ?m example_iomgr \<noteq> None" .
  from 1 2 3 show ?thesis by blast
qed

section \<open>Routing to the least busy thread\<close>

lemma least_busy_fold:
  "foldl least_busy_step (id0, c0) ts = (tid, c) \<Longrightarrow>
     c \<le> c0
     \<and> (\<forall>u\<in>set ts. is_io_thread u \<longrightarrow> c \<le> m_count u)
     \<and> (if c < c0
        then \<exists>t\<in>set ts. is_io_thread t \<and> m_thread_num t = tid \<and> m_count t = c
        else tid = id0)"
proof (induction ts arbitrary: id0 c0)
  case Nil
  then show ?case by simp
next
  case (Cons t ts)
  obtain id1 c1 where st: "least_busy_step (id0, c0) t = (id1, c1)" by fastforce
  with Cons.prems have f: "foldl least_busy_step (id1, c1) ts = (tid, c)" by simp
  note ih = Cons.IH[OF f]
  show ?case
  proof (cases "is_io_thread t \<and> m_count t < c0")
    case True
    with st have e: "id1 = m_thread_num t" "c1 = m_count t"
      by (simp_all add: least_busy_step_def)
    from ih e True have 1: "c \<le> c0" by auto
    from ih e have 2: "\<forall>u\<in>set (t # ts). is_io_thread u \<longrightarrow> c \<le> m_count u" by auto
    from 1 True e ih have lt: "c < c0" by auto
    have 3: "\<exists>v\<in>set (t # ts). is_io_thread v \<and> m_thread_num v = tid \<and> m_count v = c"
    proof (cases "c < c1")
      case True
      with ih show ?thesis by auto
    next
      case False
      with ih have "tid = id1" "c = c1" by auto
      with e \<open>is_io_thread t \<and> m_count t < c0\<close> show ?thesis by auto
    qed
    from 1 2 3 lt show ?thesis by simp
  next
    case False
    with st have e: "id1 = id0" "c1 = c0"
      by (auto simp: least_busy_step_def split: if_splits)
    from ih e have 1: "c \<le> c0" by simp
    have 2: "\<forall>u\<in>set (t # ts). is_io_thread u \<longrightarrow> c \<le> m_count u"
      using ih e False 1 by auto
    from ih e have 3: "if c < c0
        then \<exists>v\<in>set (t # ts). is_io_thread v \<and> m_thread_num v = tid \<and> m_count v = c
        else tid = id0"
      by auto
    from 1 2 3 show ?thesis by blast
  qed
qed

lemma find_least_busy_thread_id_min:
  assumes "\<exists>t\<in>set (m_thread_ctx s). is_io_thread t \<and> m_count t < UINTMAX_MAX"
  shows "\<exists>t\<in>set (m_thread_ctx s). is_io_thread t
            \<and> m_thread_num t = find_least_busy_thread_id s
            \<and> (\<forall>u\<in>set (m_thread_ctx s). is_io_thread u \<longrightarrow> m_count t \<le> m_count u)"
proof -
  obtain tid c where f: "foldl least_busy_step (0, UINTMAX_MAX) (m_thread_ctx s) = (tid, c)"
    by fastforce
  note r = least_busy_fold[OF f]
  from assms obtain t where t: "t \<in> set (m_thread_ctx s)" "is_io_thread t" "m_count t < UINTMAX_MAX"
    by blast
  with r have "c \<le> m_count t" by blast
  with t have "c < UINTMAX_MAX" by simp
  with r obtain v where "v \<in> set (m_thread_ctx s)" "is_io_thread v" "m_thread_num v = tid"
    "m_count v = c"
    by auto
  with r f show ?thesis by (auto simp: find_least_busy_thread_id_def)
qed

lemma find_least_busy_thread_id_default:
  assumes "\<forall>t\<in>set (m_thread_ctx s). is_io_thread t \<longrightarrow> m_count t = UINTMAX_MAX"
  shows "find_least_busy_thread_id s = 0"
proof -
  obtain tid c where f: "foldl least_busy_step (0, UINTMAX_MAX) (m_thread_ctx s) = (tid, c)"
    by fastforce
  note r = least_busy_fold[OF f]
  have "\<not> c < UINTMAX_MAX"
  proof
    assume "c < UINTMAX_MAX"
    with r obtain v where "v \<in> set (m_thread_ctx s)" "is_io_thread v" "m_count v = c" by auto
    with assms \<open>c < UINTMAX_MAX\<close> show False by auto
  qed
  with r f show ?thesis by (auto simp: find_least_busy_thread_id_def)
qed

lemma send_to_least_busy_thread_Some:
  "send_to_least_busy_thread sched msg s = Some s' \<Longrightarrow>
     \<exists>s1 between. (between = [] \<or> between \<in> snd ` set sched)
        \<and> send_msg (find_least_busy_thread_id s1) msg (run_env between s1) = Some (1, s')"
proof (induction sched arbitrary: s)
  case Nil
  then have "send_msg (find_least_busy_thread_id s) msg (run_env [] s) = Some (1, s')"
    by (auto simp: Let_def split: option.splits if_splits)
  then show ?case by blast
next
  case (Cons x sched)
  obtain before between where x: "x = (before, between)" by (cases x)
  define s1 where "s1 = run_env before s"
  from Cons.prems x obtain cnt s3 where
    sm: "send_msg (find_least_busy_thread_id s1) msg (run_env between s1) = Some (cnt, s3)"
    and r: "if cnt = 1 then s' = s3 else send_to_least_busy_thread sched msg s3 = Some s'"
    by (auto simp: Let_def s1_def split: option.splits if_splits)
  show ?case
  proof (cases "cnt = 1")
    case True
    with r sm have "send_msg (find_least_busy_thread_id s1) msg (run_env between s1) = Some (1, s')"
      by simp
    moreover have "between \<in> snd ` set (x # sched)" using x by force
    ultimately show ?thesis by blast
  next
    case False
    with r have "send_to_least_busy_thread sched msg s3 = Some s'" by simp
    from Cons.IH[OF this] obtain s4 b where
      "b = [] \<or> b \<in> snd ` set sched"
      "send_msg (find_least_busy_thread_id s4) msg (run_env b s4) = Some (1, s')"
      by blast
    then show ?thesis by auto
  qed
qed

lemma send_to_least_busy_thread_retry:
  assumes "send_msg (find_least_busy_thread_id (run_env before s)) msg
             (run_env between (run_env before s)) = Some (cnt, s3)"
    and "cnt \<noteq> 1"
  shows "send_to_least_busy_thread ((before, between) # sched) msg s
           = send_to_least_busy_thread sched msg s3"
  using assms by (simp add: Let_def)

lemma send_msg_specific_miss:
  "\<not> (\<exists>i. is_ctx_of tn cs i \<and> msg_deliverable (cs ! i)) \<Longrightarrow>
     send_msg_specific k tn msg cs cnt n = Some (cs, cnt, n)"
proof (induction cs)
  case Nil
  then show ?case by simp
next
  case (Cons c cs)
  show ?case
  proof (cases "m_thread_num c = tn")
    case True
    then have "is_ctx_of tn (c # cs) 0" by (simp add: is_ctx_of_Cons)
    with Cons.prems have "\<not> msg_deliverable c" by force
    with True show ?thesis
      by (simp add: send_msg_to_ctx_def msg_deliverable_def)
  next
    case False
    have "\<not> (\<exists>i. is_ctx_of tn cs i \<and> msg_deliverable (cs ! i))"
    proof
      assume "\<exists>i. is_ctx_of tn cs i \<and> msg_deliverable (cs ! i)"
      then obtain i where "is_ctx_of tn cs i" "msg_deliverable (cs ! i)" by blast
      with False have "is_ctx_of tn (c # cs) (Suc i) \<and> msg_deliverable ((c # cs) ! Suc i)"
        by (simp add: is_ctx_of_Cons)
      with Cons.prems show False by blast
    qed
    from Cons.IH[OF this] False show ?thesis by simp
  qed
qed

lemma send_msg_miss:
  assumes "send_msg tn msg s = Some (cnt, s')" and "cnt \<noteq> 1" and "tn \<noteq> - 1"
  shows "s' = s"
proof -
  from send_msg_Some[OF assms(1)] have "cnt = of_nat (msg_target_count tn (m_thread_ctx s))"
    by blast
  with assms(2,3) have "\<not> (\<exists>i. is_ctx_of tn (m_thread_ctx s) i \<and> msg_deliverable (m_thread_ctx s ! i))"
    by (auto simp: msg_target_count_specific split: if_splits)
  from send_msg_specific_miss[OF this] assms(1,3) show ?thesis
    by (simp add: send_msg_def)
qed

lemma send_to_least_busy_thread_spins:
  assumes "\<forall>c\<in>set (m_thread_ctx s). \<not> msg_deliverable c"
  shows "send_to_least_busy_thread [] msg s = None"
proof (cases "send_msg (find_least_busy_thread_id s) msg s")
  case None
  then show ?thesis by (simp add: Let_def)
next
  case (Some r)
  obtain cnt s' where r: "r = (cnt, s')" by (cases r)
  from assms have "filter (msg_target (find_least_busy_thread_id s) (m_thread_ctx s))
      [0..<length (m_thread_ctx s)] = []"
    by (auto simp: filter_empty_conv msg_target_def)
  then have "msg_target_count (find_least_busy_thread_id s) (m_thread_ctx s) = 0"
    by (simp add: msg_target_count_def)
  with send_msg_Some[OF Some[unfolded r]] have "cnt = 0" by simp
  with Some r show ?thesis by (simp add: Let_def)
qed

lemma run_env_append: "run_env (xs @ ys) s = run_env ys (run_env xs s)"
  by (induction xs arbitrary: s) simp_all

lemma access_specific_thread_thread_num:
  "map m_thread_num (access_specific_thread n (set_is_io_thread b) ts) = map m_thread_num ts"
  by (induction ts) (simp_all add: set_is_io_thread_def)

lemma env_step_thread_num:
  "map m_thread_num (m_thread_ctx (env_step e s)) = map m_thread_num (m_thread_ctx s)"
  by (cases e) (simp_all add: access_specific_thread_thread_num)

lemma run_env_thread_num:
  "map m_thread_num (m_thread_ctx (run_env es s)) = map m_thread_num (m_thread_ctx s)"
  by (induction es arbitrary: s) (simp_all add: env_step_thread_num)

lemma run_env_numbered:
  assumes "\<forall>c\<in>set (m_thread_ctx s). m_thread_num c \<noteq> - 1"
  shows "\<forall>c\<in>set (m_thread_ctx (run_env es s)). m_thread_num c \<noteq> - 1"
proof -
  have "set (map m_thread_num (m_thread_ctx (run_env es s)))
      = set (map m_thread_num (m_thread_ctx s))"
    by (simp only: run_env_thread_num)
  then have "m_thread_num ` set (m_thread_ctx (run_env es s))
      = m_thread_num ` set (m_thread_ctx s)"
    by (simp only: set_map)
  with assms show ?thesis by (metis imageE imageI)
qed

lemma find_least_busy_thread_id_range:
  "find_least_busy_thread_id s = 0
   \<or> find_least_busy_thread_id s \<in> m_thread_num ` set (m_thread_ctx s)"
proof -
  obtain tid c where f: "foldl least_busy_step (0, UINTMAX_MAX) (m_thread_ctx s) = (tid, c)"
    by fastforce
  note r = least_busy_fold[OF f]
  show ?thesis
  proof (cases "c < UINTMAX_MAX")
    case True
    with r obtain t where "t \<in> set (m_thread_ctx s)" "m_thread_num t = tid" by auto
    with f show ?thesis by (auto simp: find_least_busy_thread_id_def)
  next
    case False
    with r have "tid = 0" by simp
    with f show ?thesis by (simp add: find_least_busy_thread_id_def)
  qed
qed

lemma find_least_busy_thread_id_numbered:
  assumes "\<forall>c\<in>set (m_thread_ctx s). m_thread_num c \<noteq> - 1"
  shows "find_least_busy_thread_id s \<noteq> - 1"
  using find_least_busy_thread_id_range[of s] assms by auto

lemma send_msg_miss_count:
  assumes "send_msg tn msg s = Some (cnt, s')" and "cnt \<noteq> 1" and "tn \<noteq> - 1"
  shows "cnt = 0"
proof -
  from send_msg_Some[OF assms(1)] have "cnt = of_nat (msg_target_count tn (m_thread_ctx s))"
    by blast
  with assms(2) show ?thesis
    by (simp add: msg_target_count_specific[OF assms(3)] split: if_splits)
qed

lemma iteration_Nil:
  "iteration_select [] s m = s" "iteration_send [] s m = s"
  "attempt [] msg s m = send_msg (find_least_busy_thread_id s) msg s"
  by (simp_all add: iteration_select_def iteration_send_def attempt_def schedule_env_def)

lemma iteration_Cons_0:
  "iteration_select ((before, between) # sched) s 0 = run_env before s"
  "iteration_send ((before, between) # sched) s 0 = run_env between (run_env before s)"
  "attempt ((before, between) # sched) msg s 0
     = send_msg (find_least_busy_thread_id (run_env before s)) msg
         (run_env between (run_env before s))"
  by (simp_all add: iteration_select_def iteration_send_def attempt_def schedule_env_def)

lemma iteration_Cons_Suc:
  "iteration_select ((before, between) # sched) s (Suc j)
     = iteration_select sched (run_env between (run_env before s)) j"
  "iteration_send ((before, between) # sched) s (Suc j)
     = iteration_send sched (run_env between (run_env before s)) j"
  "attempt ((before, between) # sched) msg s (Suc j)
     = attempt sched msg (run_env between (run_env before s)) j"
  by (simp_all add: iteration_select_def iteration_send_def attempt_def schedule_env_def
        run_env_append)

lemma send_to_least_busy_thread_attempts:
  assumes "\<forall>c\<in>set (m_thread_ctx s). m_thread_num c \<noteq> - 1"
  shows "send_to_least_busy_thread sched msg s = Some s'
     \<longleftrightarrow> (\<exists>m\<le>length sched. attempt sched msg s m = Some (1, s')
            \<and> (\<forall>j<m. attempt sched msg s j = Some (0, iteration_send sched s j)))"
  using assms
proof (induction sched arbitrary: s)
  case Nil
  have "send_to_least_busy_thread [] msg s = Some s'
      \<longleftrightarrow> send_msg (find_least_busy_thread_id s) msg s = Some (1, s')"
    by (auto simp: Let_def split: option.splits)
  then show ?case by (simp add: iteration_Nil)
next
  case (Cons x sched)
  obtain before between where x: "x = (before, between)" by (cases x)
  define s1 where "s1 = run_env before s"
  define s2 where "s2 = run_env between s1"
  have n1: "find_least_busy_thread_id s1 \<noteq> - 1"
    unfolding s1_def
    by (rule find_least_busy_thread_id_numbered[OF run_env_numbered[OF Cons.prems]])
  have n2: "\<forall>c\<in>set (m_thread_ctx s2). m_thread_num c \<noteq> - 1"
    unfolding s2_def s1_def by (intro run_env_numbered Cons.prems)
  note ih = Cons.IH[OF n2]
  have a0: "attempt (x # sched) msg s 0 = send_msg (find_least_busy_thread_id s1) msg s2"
    and i0: "iteration_send (x # sched) s 0 = s2"
    and aS: "\<And>j. attempt (x # sched) msg s (Suc j) = attempt sched msg s2 j"
    and iS: "\<And>j. iteration_send (x # sched) s (Suc j) = iteration_send sched s2 j"
    by (simp_all add: x s1_def s2_def iteration_Cons_0 iteration_Cons_Suc)
  let ?R = "\<lambda>sched s. \<exists>m\<le>length sched. attempt sched msg s m = Some (1, s')
            \<and> (\<forall>j<m. attempt sched msg s j = Some (0, iteration_send sched s j))"
  show ?case
  proof (cases "send_msg (find_least_busy_thread_id s1) msg s2")
    case None
    then have l: "send_to_least_busy_thread (x # sched) msg s = None"
      by (simp add: x s1_def s2_def Let_def)
    have "\<not> ?R (x # sched) s"
    proof
      assume "?R (x # sched) s"
      then obtain m where m: "attempt (x # sched) msg s m = Some (1, s')"
        "\<forall>j<m. attempt (x # sched) msg s j = Some (0, iteration_send (x # sched) s j)"
        by blast
      show False
      proof (cases m)
        case 0
        with m(1) a0 None show False by simp
      next
        case (Suc k)
        with m(2) have "attempt (x # sched) msg s 0 = Some (0, iteration_send (x # sched) s 0)"
          by simp
        with a0 None show False by simp
      qed
    qed
    with l show ?thesis by simp
  next
    case (Some r)
    obtain cnt s3 where r: "r = (cnt, s3)" by (cases r)
    with Some have sm: "send_msg (find_least_busy_thread_id s1) msg s2 = Some (cnt, s3)" by simp
    show ?thesis
    proof (cases "cnt = 1")
      case True
      with sm have l: "send_to_least_busy_thread (x # sched) msg s = Some s3"
        by (simp add: x s1_def s2_def Let_def)
      have "?R (x # sched) s \<longleftrightarrow> s3 = s'"
      proof
        assume "?R (x # sched) s"
        then obtain m where m: "attempt (x # sched) msg s m = Some (1, s')"
          "\<forall>j<m. attempt (x # sched) msg s j = Some (0, iteration_send (x # sched) s j)"
          by blast
        show "s3 = s'"
        proof (cases m)
          case 0
          with m(1) a0 sm show ?thesis by simp
        next
          case (Suc k)
          with m(2) have "attempt (x # sched) msg s 0 = Some (0, iteration_send (x # sched) s 0)"
            by simp
          with a0 sm True show ?thesis by simp
        qed
      next
        assume "s3 = s'"
        with a0 sm True have "0 \<le> length (x # sched) \<and> attempt (x # sched) msg s 0 = Some (1, s')
            \<and> (\<forall>j<0. attempt (x # sched) msg s j = Some (0, iteration_send (x # sched) s j))"
          by simp
        then show "?R (x # sched) s" by (rule exI[of _ 0])
      qed
      with l show ?thesis by auto
    next
      case False
      from send_msg_miss[OF sm False n1] have e3: "s3 = s2" .
      from send_msg_miss_count[OF sm False n1] have c0: "cnt = 0" .
      from sm False have l: "send_to_least_busy_thread (x # sched) msg s
          = send_to_least_busy_thread sched msg s3"
        by (simp add: x s1_def s2_def Let_def)
      from sm e3 c0 a0 have a00: "attempt (x # sched) msg s 0 = Some (0, s2)" by simp
      have "?R (x # sched) s \<longleftrightarrow> ?R sched s2"
      proof
        assume "?R (x # sched) s"
        then obtain m where m: "m \<le> length (x # sched)"
          "attempt (x # sched) msg s m = Some (1, s')"
          "\<forall>j<m. attempt (x # sched) msg s j = Some (0, iteration_send (x # sched) s j)"
          by blast
        show "?R sched s2"
        proof (cases m)
          case 0
          with m(2) a00 show ?thesis by simp
        next
          case (Suc k)
          with m(1) have k: "k \<le> length sched" by simp
          from m(2) Suc have ak: "attempt sched msg s2 k = Some (1, s')" by (simp add: aS)
          have "\<forall>j<k. attempt sched msg s2 j = Some (0, iteration_send sched s2 j)"
          proof (intro allI impI)
            fix j assume "j < k"
            with Suc have "Suc j < m" by simp
            with m(3) have "attempt (x # sched) msg s (Suc j)
                = Some (0, iteration_send (x # sched) s (Suc j))"
              by blast
            then show "attempt sched msg s2 j = Some (0, iteration_send sched s2 j)"
              by (simp add: aS iS)
          qed
          with k ak have "k \<le> length sched \<and> attempt sched msg s2 k = Some (1, s')
              \<and> (\<forall>j<k. attempt sched msg s2 j = Some (0, iteration_send sched s2 j))"
            by simp
          then show ?thesis by (rule exI[of _ k])
        qed
      next
        assume "?R sched s2"
        then obtain k where k: "k \<le> length sched"
          "attempt sched msg s2 k = Some (1, s')"
          "\<forall>j<k. attempt sched msg s2 j = Some (0, iteration_send sched s2 j)"
          by blast
        have "\<forall>j<Suc k. attempt (x # sched) msg s j = Some (0, iteration_send (x # sched) s j)"
        proof (intro allI impI)
          fix j assume j: "j < Suc k"
          show "attempt (x # sched) msg s j = Some (0, iteration_send (x # sched) s j)"
          proof (cases j)
            case 0
            with a00 i0 show ?thesis by simp
          next
            case (Suc i)
            with j have "i < k" by simp
            with k(3) have "attempt sched msg s2 i = Some (0, iteration_send sched s2 i)" by blast
            with Suc show ?thesis by (simp add: aS iS)
          qed
        qed
        with k(1,2) have "Suc k \<le> length (x # sched)
            \<and> attempt (x # sched) msg s (Suc k) = Some (1, s')
            \<and> (\<forall>j<Suc k. attempt (x # sched) msg s j = Some (0, iteration_send (x # sched) s j))"
          by (simp add: aS)
        then show "?R (x # sched) s" by (rule exI[of _ "Suc k"])
      qed
      with l e3 ih show ?thesis by simp
    qed
  qed
qed

lemma send_to_least_busy_thread_returns:
  assumes io: "\<exists>t\<in>set (m_thread_ctx s). is_io_thread t \<and> m_count t < UINTMAX_MAX"
    and num: "\<forall>c\<in>set (m_thread_ctx s). m_thread_num c \<noteq> - 1"
    and dist: "distinct (map m_thread_num (m_thread_ctx s))"
    and fds: "\<forall>c\<in>set (m_thread_ctx s). m_is_io_thread c \<longrightarrow> m_msg_fd_info c \<noteq> None"
    and ker: "\<forall>n. \<exists>j\<ge>n. kernel_write s j \<noteq> Eagain"
  shows "\<exists>s' i. send_to_least_busy_thread [] msg s = Some s'
           \<and> send_msg (find_least_busy_thread_id s) msg s = Some (1, s')
           \<and> i < length (m_thread_ctx s)
           \<and> m_thread_num (m_thread_ctx s ! i) = find_least_busy_thread_id s
           \<and> is_io_thread (m_thread_ctx s ! i)
           \<and> (\<forall>u\<in>set (m_thread_ctx s). is_io_thread u \<longrightarrow>
                 m_count (m_thread_ctx s ! i) \<le> m_count u)
           \<and> length (m_thread_ctx s') = length (m_thread_ctx s)
           \<and> m_msg_q (m_thread_ctx s' ! i) = m_msg_q (m_thread_ctx s ! i) @ [msg]
           \<and> (\<forall>j<length (m_thread_ctx s). j \<noteq> i \<longrightarrow> m_thread_ctx s' ! j = m_thread_ctx s ! j)"
proof -
  let ?ts = "m_thread_ctx s"
  let ?tn = "find_least_busy_thread_id s"
  from find_least_busy_thread_id_min[OF io] obtain t where t: "t \<in> set ?ts" "is_io_thread t"
    "m_thread_num t = ?tn" "\<forall>u\<in>set ?ts. is_io_thread u \<longrightarrow> m_count t \<le> m_count u"
    by blast
  from t(1) obtain i where i: "i < length ?ts" "?ts ! i = t" by (auto simp: in_set_conv_nth)
  from t(1,3) num have tn: "?tn \<noteq> - 1" by auto
  have uniq: "j = i" if "j < length ?ts" "m_thread_num (?ts ! j) = ?tn" for j
  proof -
    from that i t(3) have "map m_thread_num ?ts ! j = map m_thread_num ?ts ! i" by simp
    with dist that(1) i(1) show ?thesis
      using nth_eq_iff_index_eq[of "map m_thread_num ?ts" j i] by simp
  qed
  have ctx: "is_ctx_of ?tn ?ts i"
    unfolding is_ctx_of_def
  proof (intro conjI allI impI)
    show "i < length ?ts" by (rule i(1))
    show "m_thread_num (?ts ! i) = ?tn" using i t(3) by simp
    fix j assume j: "j < i"
    show "m_thread_num (?ts ! j) \<noteq> ?tn"
    proof
      assume "m_thread_num (?ts ! j) = ?tn"
      with uniq[of j] j i(1) show False by simp
    qed
  qed
  from t(1,2) fds have del: "msg_deliverable (?ts ! i)"
    by (simp add: i msg_deliverable_def is_io_thread_def)
  from ctx del have tg: "msg_target ?tn ?ts i" by (simp add: msg_target_def i(1))
  from ctx del have cnt1: "msg_target_count ?tn ?ts = 1"
    by (auto simp: msg_target_count_specific[OF tn])
  from send_msg_returns[OF ker, of ?tn msg] obtain cnt s' where
    sm: "send_msg ?tn msg s = Some (cnt, s')"
    by (cases "send_msg ?tn msg s") auto
  note d = send_msg_Some[OF sm]
  from d cnt1 have c: "cnt = 1" by simp
  from sm c have r: "send_to_least_busy_thread [] msg s = Some s'" by (simp add: Let_def)
  from d have len: "length (m_thread_ctx s') = length ?ts" by blast
  from d have nth: "\<forall>j<length ?ts.
        if msg_target ?tn ?ts j
        then \<exists>r. r \<noteq> Eagain \<and> m_thread_ctx s' ! j = token_written r (put_msg msg (?ts ! j))
        else m_thread_ctx s' ! j = ?ts ! j"
    by blast
  note n_i = nth[rule_format, OF i(1)]
  from n_i[unfolded if_P[OF tg]] obtain r where
    "m_thread_ctx s' ! i = token_written r (put_msg msg (?ts ! i))"
    by blast
  then have q: "m_msg_q (m_thread_ctx s' ! i) = m_msg_q (?ts ! i) @ [msg]"
    by (simp add: token_written_def put_msg_def)
  have other: "\<forall>j<length ?ts. j \<noteq> i \<longrightarrow> m_thread_ctx s' ! j = ?ts ! j"
  proof (intro allI impI)
    fix j assume j: "j < length ?ts" "j \<noteq> i"
    have nt: "\<not> msg_target ?tn ?ts j"
    proof
      assume "msg_target ?tn ?ts j"
      with tn have "is_ctx_of ?tn ?ts j" by (simp add: msg_target_def)
      from is_ctx_of_unique[OF this ctx] j(2) show False by simp
    qed
    note n_j = nth[rule_format, OF j(1)]
    from n_j[unfolded if_not_P[OF nt]] show "m_thread_ctx s' ! j = ?ts ! j" .
  qed
  from sm c have sm1: "send_msg ?tn msg s = Some (1, s')" by simp
  from i t have a: "m_thread_num (?ts ! i) = ?tn" "is_io_thread (?ts ! i)"
    "\<forall>u\<in>set ?ts. is_io_thread u \<longrightarrow> m_count (?ts ! i) \<le> m_count u"
    by simp_all
  from r sm1 i(1) a len q other show ?thesis
    by (intro exI[of _ s'] exI[of _ i] conjI) assumption+
qed

text \<open>
  C6, as the code has it. When some io thread has a count below \<open>UINTMAX_MAX\<close>,
  \<open>find_least_busy_thread_id\<close> selects an io thread whose \<open>m_count\<close> is minimal over
  all io threads; when there is none it selects thread number 0. Every iteration
  sends to the thread selected in that iteration. With thread numbers other than
  -1 (the number that \<open>send_msg\<close> reads as a broadcast) the loop returns exactly
  when one of its attempts delivers to exactly one thread, all attempts before it
  having delivered to none and left the manager as it was, and what it returns is
  the manager of that attempt. An attempt that does not deliver to exactly one
  thread (the target left the loop between selection and send) is followed by a
  new selection and send. With the environment at rest, distinct thread numbers, a
  message descriptor for every io thread and a kernel that does not answer
  \<^verbatim>\<open>EAGAIN\<close> for ever, the loop returns after its first attempt, with the message at
  the end of the queue of a least busy io thread and every other thread as before.
  With no thread to deliver to and an environment at rest the loop does not return.
\<close>

theorem send_to_least_busy_thread_selection:
  "((\<exists>t\<in>set (m_thread_ctx s). is_io_thread t \<and> m_count t < UINTMAX_MAX) \<longrightarrow>
      (\<exists>t\<in>set (m_thread_ctx s). is_io_thread t
          \<and> m_thread_num t = find_least_busy_thread_id s
          \<and> (\<forall>u\<in>set (m_thread_ctx s). is_io_thread u \<longrightarrow> m_count t \<le> m_count u)))
   \<and> ((\<forall>t\<in>set (m_thread_ctx s). is_io_thread t \<longrightarrow> m_count t = UINTMAX_MAX) \<longrightarrow>
        find_least_busy_thread_id s = 0)
   \<and> attempt sched msg s m
       = send_msg (find_least_busy_thread_id (iteration_select sched s m)) msg
           (iteration_send sched s m)
   \<and> ((\<forall>c\<in>set (m_thread_ctx s). m_thread_num c \<noteq> - 1) \<longrightarrow>
        (send_to_least_busy_thread sched msg s = Some s')
          = (\<exists>m\<le>length sched. attempt sched msg s m = Some (1, s')
               \<and> (\<forall>j<m. attempt sched msg s j = Some (0, iteration_send sched s j))))
   \<and> (send_msg (find_least_busy_thread_id (run_env before s)) msg
          (run_env between (run_env before s)) = Some (cnt, s3) \<and> cnt \<noteq> 1 \<longrightarrow>
        send_to_least_busy_thread ((before, between) # sched) msg s
          = send_to_least_busy_thread sched msg s3
        \<and> (find_least_busy_thread_id (run_env before s) \<noteq> - 1 \<longrightarrow>
             s3 = run_env between (run_env before s)))
   \<and> ((\<exists>t\<in>set (m_thread_ctx s). is_io_thread t \<and> m_count t < UINTMAX_MAX)
        \<and> (\<forall>c\<in>set (m_thread_ctx s). m_thread_num c \<noteq> - 1)
        \<and> distinct (map m_thread_num (m_thread_ctx s))
        \<and> (\<forall>c\<in>set (m_thread_ctx s). m_is_io_thread c \<longrightarrow> m_msg_fd_info c \<noteq> None)
        \<and> (\<forall>n. \<exists>j\<ge>n. kernel_write s j \<noteq> Eagain) \<longrightarrow>
        (\<exists>t i. send_to_least_busy_thread [] msg s = Some t
           \<and> send_msg (find_least_busy_thread_id s) msg s = Some (1, t)
           \<and> i < length (m_thread_ctx s)
           \<and> m_thread_num (m_thread_ctx s ! i) = find_least_busy_thread_id s
           \<and> is_io_thread (m_thread_ctx s ! i)
           \<and> (\<forall>u\<in>set (m_thread_ctx s). is_io_thread u \<longrightarrow>
                 m_count (m_thread_ctx s ! i) \<le> m_count u)
           \<and> length (m_thread_ctx t) = length (m_thread_ctx s)
           \<and> m_msg_q (m_thread_ctx t ! i) = m_msg_q (m_thread_ctx s ! i) @ [msg]
           \<and> (\<forall>j<length (m_thread_ctx s). j \<noteq> i \<longrightarrow>
                 m_thread_ctx t ! j = m_thread_ctx s ! j)))
   \<and> ((\<forall>c\<in>set (m_thread_ctx s). \<not> msg_deliverable c) \<longrightarrow>
        send_to_least_busy_thread [] msg s = None)"
proof (intro conjI impI)
  assume "\<exists>t\<in>set (m_thread_ctx s). is_io_thread t \<and> m_count t < UINTMAX_MAX"
  then show "\<exists>t\<in>set (m_thread_ctx s). is_io_thread t
          \<and> m_thread_num t = find_least_busy_thread_id s
          \<and> (\<forall>u\<in>set (m_thread_ctx s). is_io_thread u \<longrightarrow> m_count t \<le> m_count u)"
    by (rule find_least_busy_thread_id_min)
next
  assume "\<forall>t\<in>set (m_thread_ctx s). is_io_thread t \<longrightarrow> m_count t = UINTMAX_MAX"
  then show "find_least_busy_thread_id s = 0"
    by (rule find_least_busy_thread_id_default)
next
  show "attempt sched msg s m
       = send_msg (find_least_busy_thread_id (iteration_select sched s m)) msg
           (iteration_send sched s m)"
    by (simp only: attempt_def)
next
  assume "\<forall>c\<in>set (m_thread_ctx s). m_thread_num c \<noteq> - 1"
  then show "(send_to_least_busy_thread sched msg s = Some s')
          = (\<exists>m\<le>length sched. attempt sched msg s m = Some (1, s')
               \<and> (\<forall>j<m. attempt sched msg s j = Some (0, iteration_send sched s j)))"
    by (rule send_to_least_busy_thread_attempts)
next
  assume a: "send_msg (find_least_busy_thread_id (run_env before s)) msg
          (run_env between (run_env before s)) = Some (cnt, s3) \<and> cnt \<noteq> 1"
  then have 1: "send_msg (find_least_busy_thread_id (run_env before s)) msg
          (run_env between (run_env before s)) = Some (cnt, s3)" and 2: "cnt \<noteq> 1"
    by blast+
  show "send_to_least_busy_thread ((before, between) # sched) msg s
          = send_to_least_busy_thread sched msg s3"
    by (rule send_to_least_busy_thread_retry[OF 1 2])
next
  assume a: "send_msg (find_least_busy_thread_id (run_env before s)) msg
          (run_env between (run_env before s)) = Some (cnt, s3) \<and> cnt \<noteq> 1"
    and n: "find_least_busy_thread_id (run_env before s) \<noteq> - 1"
  from a have 1: "send_msg (find_least_busy_thread_id (run_env before s)) msg
          (run_env between (run_env before s)) = Some (cnt, s3)" and 2: "cnt \<noteq> 1"
    by blast+
  from send_msg_miss[OF 1 2 n] show "s3 = run_env between (run_env before s)" .
next
  assume a: "(\<exists>t\<in>set (m_thread_ctx s). is_io_thread t \<and> m_count t < UINTMAX_MAX)
        \<and> (\<forall>c\<in>set (m_thread_ctx s). m_thread_num c \<noteq> - 1)
        \<and> distinct (map m_thread_num (m_thread_ctx s))
        \<and> (\<forall>c\<in>set (m_thread_ctx s). m_is_io_thread c \<longrightarrow> m_msg_fd_info c \<noteq> None)
        \<and> (\<forall>n. \<exists>j\<ge>n. kernel_write s j \<noteq> Eagain)"
  note io = a[THEN conjunct1]
  note num = a[THEN conjunct2, THEN conjunct1]
  note dist = a[THEN conjunct2, THEN conjunct2, THEN conjunct1]
  note fds = a[THEN conjunct2, THEN conjunct2, THEN conjunct2, THEN conjunct1]
  note ker = a[THEN conjunct2, THEN conjunct2, THEN conjunct2, THEN conjunct2]
  show "\<exists>t i. send_to_least_busy_thread [] msg s = Some t
           \<and> send_msg (find_least_busy_thread_id s) msg s = Some (1, t)
           \<and> i < length (m_thread_ctx s)
           \<and> m_thread_num (m_thread_ctx s ! i) = find_least_busy_thread_id s
           \<and> is_io_thread (m_thread_ctx s ! i)
           \<and> (\<forall>u\<in>set (m_thread_ctx s). is_io_thread u \<longrightarrow>
                 m_count (m_thread_ctx s ! i) \<le> m_count u)
           \<and> length (m_thread_ctx t) = length (m_thread_ctx s)
           \<and> m_msg_q (m_thread_ctx t ! i) = m_msg_q (m_thread_ctx s ! i) @ [msg]
           \<and> (\<forall>j<length (m_thread_ctx s). j \<noteq> i \<longrightarrow>
                 m_thread_ctx t ! j = m_thread_ctx s ! j)"
    by (rule send_to_least_busy_thread_returns[OF io num dist fds ker])
next
  assume "\<forall>c\<in>set (m_thread_ctx s). \<not> msg_deliverable c"
  then show "send_to_least_busy_thread [] msg s = None"
    by (rule send_to_least_busy_thread_spins)
qed

theorem send_to_least_busy_thread_selection_witness:
  "find_least_busy_thread_id example_two = 1
   \<and> (\<exists>s'. send_to_least_busy_thread [([], [Ev_thread_left_loop 1])]
               (iomgr_msg_of_type WAKEUP) example_two = Some s'
         \<and> attempt [([], [Ev_thread_left_loop 1])] (iomgr_msg_of_type WAKEUP) example_two 0
             = Some (0, iteration_send [([], [Ev_thread_left_loop 1])] example_two 0)
         \<and> attempt [([], [Ev_thread_left_loop 1])] (iomgr_msg_of_type WAKEUP) example_two 1
             = Some (1, s')
         \<and> m_msg_q (m_thread_ctx s' ! 0) = [iomgr_msg_of_type WAKEUP]
         \<and> m_msg_q (m_thread_ctx s' ! 1) = [])
   \<and> (\<exists>t. send_to_least_busy_thread [] (iomgr_msg_of_type WAKEUP) example_two = Some t
         \<and> send_msg 1 (iomgr_msg_of_type WAKEUP) example_two = Some (1, t)
         \<and> m_thread_ctx t ! 0 = example_ctx 0 100 True
         \<and> m_msg_q (m_thread_ctx t ! 1) = [iomgr_msg_of_type WAKEUP])
   \<and> find_least_busy_thread_id example_idle = 0
   \<and> send_to_least_busy_thread [] (iomgr_msg_of_type WAKEUP) example_idle = None"
proof -
  let ?m = "iomgr_msg_of_type WAKEUP"
  let ?sched = "[([], [Ev_thread_left_loop 1])]"
  note inst = send_to_least_busy_thread_selection
  have ts: "m_thread_ctx example_two = [example_ctx 0 100 True, example_ctx 1 10 True]"
    by (simp add: example_two_def)
  have h1: "\<exists>t\<in>set (m_thread_ctx example_two). is_io_thread t \<and> m_count t < UINTMAX_MAX"
    by (simp add: ts example_ctx_def is_io_thread_def UINTMAX_MAX_def)
  from inst[of example_two "[]" ?m 0 example_two "[]" "[]" 0 example_two,
            THEN conjunct1, THEN mp, OF h1]
  obtain t where t: "t \<in> set (m_thread_ctx example_two)"
    "m_thread_num t = find_least_busy_thread_id example_two"
    "\<forall>u\<in>set (m_thread_ctx example_two). is_io_thread u \<longrightarrow> m_count t \<le> m_count u"
    by blast
  from t(3) have "m_count t \<le> 10"
    by (simp add: ts example_ctx_def is_io_thread_def)
  with t(1) have "t = example_ctx 1 10 True"
    by (auto simp: ts example_ctx_def)
  with t(2) have 1: "find_least_busy_thread_id example_two = 1"
    by (simp add: example_ctx_def)
  define s3 where "s3 = run_env [Ev_thread_left_loop 1] (run_env [] example_two)"
  have ts3: "m_thread_ctx s3 = [example_ctx 0 100 True, example_ctx 1 10 False]"
    by (simp add: s3_def ts example_ctx_def set_is_io_thread_def)
  have miss: "\<not> (\<exists>i. is_ctx_of 1 (m_thread_ctx s3) i \<and> msg_deliverable (m_thread_ctx s3 ! i))"
    by (auto simp: ts3 is_ctx_of_def msg_deliverable_def example_ctx_def less_Suc_eq)
  have sm: "send_msg 1 ?m s3 = Some (0, s3)"
    by (simp add: send_msg_def send_msg_specific_miss[OF miss])
  have is0: "iteration_select ?sched example_two 0 = example_two"
    and ie0: "iteration_send ?sched example_two 0 = s3"
    and is1: "iteration_select ?sched example_two 1 = s3"
    and ie1: "iteration_send ?sched example_two 1 = s3"
    by (simp_all add: iteration_select_def iteration_send_def schedule_env_def s3_def)
  note a0 = inst[of example_two ?sched ?m 0 example_two "[]" "[]" 0 example_two,
            THEN conjunct2, THEN conjunct2, THEN conjunct1]
  from a0 1 sm have at0: "attempt ?sched ?m example_two 0
      = Some (0, iteration_send ?sched example_two 0)"
    by (simp only: is0 ie0)
  define s' where "s' = s3\<lparr>m_thread_ctx :=
      [token_written Written (put_msg ?m (example_ctx 0 100 True)), example_ctx 1 10 False],
      kernel_clock := Suc 0\<rparr>"
  have k: "kernel_write s3 = (\<lambda>n. Written)" "kernel_clock s3 = 0"
    by (simp_all add: s3_def example_two_def example_iomgr_def)
  have f3: "find_least_busy_thread_id s3 = 0"
    by (simp add: find_least_busy_thread_id_def ts3 least_busy_step_def example_ctx_def
          is_io_thread_def UINTMAX_MAX_def)
  have w: "write_wakeup_token (\<lambda>n. Written) 0 = Some (Written, Suc 0)"
    by (simp add: write_wakeup_token.simps)
  have sm0: "send_msg 0 ?m s3 = Some (1, s')"
    by (simp add: send_msg_def ts3 k w s'_def send_msg_to_ctx_def example_ctx_def Let_def)
  note a1 = inst[of example_two ?sched ?m 1 example_two "[]" "[]" 0 example_two,
            THEN conjunct2, THEN conjunct2, THEN conjunct1]
  from a1 f3 sm0 have at1: "attempt ?sched ?m example_two 1 = Some (1, s')"
    by (simp only: is1 ie1)
  have num: "\<forall>c\<in>set (m_thread_ctx example_two). m_thread_num c \<noteq> - 1"
    by (simp add: ts example_ctx_def)
  note iff = inst[of example_two ?sched ?m 0 s' "[]" "[]" 0 example_two,
            THEN conjunct2, THEN conjunct2, THEN conjunct2, THEN conjunct1, THEN mp, OF num]
  have "\<forall>j<1. attempt ?sched ?m example_two j = Some (0, iteration_send ?sched example_two j)"
    using at0 by simp
  with at1 have "1 \<le> length ?sched \<and> attempt ?sched ?m example_two 1 = Some (1, s')
      \<and> (\<forall>j<1. attempt ?sched ?m example_two j = Some (0, iteration_send ?sched example_two j))"
    by simp
  then have "\<exists>m\<le>length ?sched. attempt ?sched ?m example_two m = Some (1, s')
      \<and> (\<forall>j<m. attempt ?sched ?m example_two j = Some (0, iteration_send ?sched example_two j))"
    by (rule exI[of _ 1])
  with iff have r: "send_to_least_busy_thread ?sched ?m example_two = Some s'" by (rule iffD2)
  have q: "m_msg_q (m_thread_ctx s' ! 0) = [?m]" "m_msg_q (m_thread_ctx s' ! 1) = []"
    by (simp_all add: s'_def token_written_def put_msg_def example_ctx_def)
  from r at0 at1 q have 2: "\<exists>s'. send_to_least_busy_thread ?sched ?m example_two = Some s'
         \<and> attempt ?sched ?m example_two 0 = Some (0, iteration_send ?sched example_two 0)
         \<and> attempt ?sched ?m example_two 1 = Some (1, s')
         \<and> m_msg_q (m_thread_ctx s' ! 0) = [?m]
         \<and> m_msg_q (m_thread_ctx s' ! 1) = []"
    by (intro exI[of _ s'] conjI) assumption+
  have h6: "(\<exists>t\<in>set (m_thread_ctx example_two). is_io_thread t \<and> m_count t < UINTMAX_MAX)
        \<and> (\<forall>c\<in>set (m_thread_ctx example_two). m_thread_num c \<noteq> - 1)
        \<and> distinct (map m_thread_num (m_thread_ctx example_two))
        \<and> (\<forall>c\<in>set (m_thread_ctx example_two). m_is_io_thread c \<longrightarrow> m_msg_fd_info c \<noteq> None)
        \<and> (\<forall>n. \<exists>j\<ge>n. kernel_write example_two j \<noteq> Eagain)"
  proof (intro conjI)
    show "\<exists>t\<in>set (m_thread_ctx example_two). is_io_thread t \<and> m_count t < UINTMAX_MAX"
      by (rule h1)
    show "\<forall>c\<in>set (m_thread_ctx example_two). m_thread_num c \<noteq> - 1" by (rule num)
    show "distinct (map m_thread_num (m_thread_ctx example_two))"
      by (simp add: ts example_ctx_def)
    show "\<forall>c\<in>set (m_thread_ctx example_two). m_is_io_thread c \<longrightarrow> m_msg_fd_info c \<noteq> None"
      by (simp add: ts example_ctx_def)
    show "\<forall>n. \<exists>j\<ge>n. kernel_write example_two j \<noteq> Eagain"
      by (auto simp: example_two_def example_iomgr_def)
  qed
  from inst[of example_two "[]" ?m 0 example_two "[]" "[]" 0 example_two,
            THEN conjunct2, THEN conjunct2, THEN conjunct2, THEN conjunct2, THEN conjunct2,
            THEN conjunct1, THEN mp, OF h6]
  obtain u i where u: "send_to_least_busy_thread [] ?m example_two = Some u"
    and us: "send_msg (find_least_busy_thread_id example_two) ?m example_two = Some (1, u)"
    and ui: "i < length (m_thread_ctx example_two)"
    and un: "m_thread_num (m_thread_ctx example_two ! i) = find_least_busy_thread_id example_two"
    and uq: "m_msg_q (m_thread_ctx u ! i) = m_msg_q (m_thread_ctx example_two ! i) @ [?m]"
    and uo: "\<forall>j<length (m_thread_ctx example_two). j \<noteq> i \<longrightarrow>
                 m_thread_ctx u ! j = m_thread_ctx example_two ! j"
    by (elim exE conjE) (rule that; assumption)
  from ui un 1 have i1: "i = 1"
    by (auto simp: ts example_ctx_def less_Suc_eq)
  from uq i1 have uq1: "m_msg_q (m_thread_ctx u ! 1) = [?m]"
    by (simp add: ts example_ctx_def)
  have "0 < length (m_thread_ctx example_two)" by (simp add: ts)
  with uo i1 have "m_thread_ctx u ! 0 = m_thread_ctx example_two ! 0" by simp
  then have u0: "m_thread_ctx u ! 0 = example_ctx 0 100 True" by (simp add: ts)
  from us 1 have us1: "send_msg 1 ?m example_two = Some (1, u)" by simp
  from u us1 u0 uq1
  have 3: "\<exists>t. send_to_least_busy_thread [] ?m example_two = Some t
         \<and> send_msg 1 ?m example_two = Some (1, t)
         \<and> m_thread_ctx t ! 0 = example_ctx 0 100 True
         \<and> m_msg_q (m_thread_ctx t ! 1) = [?m]"
    by (intro exI[of _ u] conjI) assumption+
  have h2: "\<forall>t\<in>set (m_thread_ctx example_idle). is_io_thread t \<longrightarrow> m_count t = UINTMAX_MAX"
    by (simp add: example_idle_def example_ctx_def is_io_thread_def)
  from inst[of example_idle "[]" ?m 0 example_idle "[]" "[]" 0 example_idle,
            THEN conjunct2, THEN conjunct1, THEN mp, OF h2]
  have 4: "find_least_busy_thread_id example_idle = 0" .
  have h5: "\<forall>c\<in>set (m_thread_ctx example_idle). \<not> msg_deliverable c"
    by (simp add: example_idle_def example_ctx_def msg_deliverable_def)
  from inst[of example_idle "[]" ?m 0 example_idle "[]" "[]" 0 example_idle,
            THEN conjunct2, THEN conjunct2, THEN conjunct2, THEN conjunct2, THEN conjunct2,
            THEN conjunct2, THEN mp, OF h5]
  have 5: "send_to_least_busy_thread [] ?m example_idle = None" .
  from 1 2 3 4 5 show ?thesis by (intro conjI) assumption+
qed

text \<open>
  C6 as stated fails where no thread is in the io loop: the selected target is
  thread 0, which is not an io thread, and the loop does not return.
\<close>

theorem send_to_least_busy_thread_no_io_thread:
  "find_least_busy_thread_id example_idle = 0
   \<and> m_thread_ctx example_idle = [example_ctx 0 5 False]
   \<and> \<not> is_io_thread (example_ctx 0 5 False)
   \<and> send_to_least_busy_thread [] (iomgr_msg_of_type WAKEUP) example_idle = None"
  by (simp add: find_least_busy_thread_id_def example_idle_def example_ctx_def
        least_busy_step_def is_io_thread_def send_msg_def send_msg_to_ctx_def Let_def)

section \<open>Stopping: properties\<close>

lemma send_msg_fields:
  assumes "send_msg n msg s = Some (cnt, s')"
  shows "m_state s' = m_state s" "m_yet_to_stop_nthreads s' = m_yet_to_stop_nthreads s"
    "m_yet_to_start_nthreads s' = m_yet_to_start_nthreads s"
    "m_iomgr_threads s' = m_iomgr_threads s" "m_global_timer s' = m_global_timer s"
    "kernel_write s' = kernel_write s"
  using send_msg_frame[OF assms] by auto

lemma stop_latch_unfold:
  "stop_latch env s =
     (case send_msg (- 1) (iomgr_msg_of_type RELINQUISH_IO_THREAD) (stop_begin s) of
        None \<Rightarrow> None
      | Some (cnt, s3) \<Rightarrow>
          if m_yet_to_stop_nthreads s = 0
          then Some (set_state stopped (s3\<lparr>m_global_timer := None, m_yet_to_stop_nthreads := 0\<rparr>))
          else wait_to_be_stopped env
                 (s3\<lparr>m_global_timer := None, m_yet_to_stop_nthreads := m_yet_to_stop_nthreads s\<rparr>))"
proof (cases "send_msg (- 1) (iomgr_msg_of_type RELINQUISH_IO_THREAD) (stop_begin s)")
  case None
  then show ?thesis by (simp add: stop_latch_def Let_def stop_begin_def Let_def set_state_def)
next
  case (Some r)
  obtain cnt s3 where r: "r = (cnt, s3)" by (cases r)
  from send_msg_fields[OF Some[unfolded r]]
  have f: "m_yet_to_stop_nthreads s3 = m_yet_to_stop_nthreads s + 1"
    by (simp add: stop_begin_def Let_def set_state_def)
  have "stop_latch env s =
      (let s4 = s3\<lparr>m_global_timer := None\<rparr>;
           s5 = s4\<lparr>m_yet_to_stop_nthreads := m_yet_to_stop_nthreads s4 - 1\<rparr>
       in if m_yet_to_stop_nthreads s5 = 0 then Some (set_state stopped s5)
          else wait_to_be_stopped env s5)"
    using Some r by (simp add: stop_latch_def stop_begin_def Let_def set_state_def)
  with f Some r show ?thesis by (simp add: Let_def)
qed

lemma stop_latch_cases:
  assumes "stop_latch env s = Some s6"
  shows "\<exists>cnt s3. send_msg (- 1) (iomgr_msg_of_type RELINQUISH_IO_THREAD) (stop_begin s) = Some (cnt, s3)
           \<and> m_state s3 = stopping
           \<and> m_yet_to_stop_nthreads s3 = m_yet_to_stop_nthreads s + 1
           \<and> (if m_yet_to_stop_nthreads s = 0
               then s6 = set_state stopped (s3\<lparr>m_global_timer := None, m_yet_to_stop_nthreads := 0\<rparr>)
               else wait_to_be_stopped env
                      (s3\<lparr>m_global_timer := None,
                          m_yet_to_stop_nthreads := m_yet_to_stop_nthreads s\<rparr>) = Some s6)"
proof -
  from assms obtain cnt s3 where
    sm: "send_msg (- 1) (iomgr_msg_of_type RELINQUISH_IO_THREAD) (stop_begin s) = Some (cnt, s3)"
    by (auto simp: stop_latch_def Let_def stop_begin_def Let_def set_state_def split: option.splits)
  from send_msg_fields[OF sm] have f: "m_state s3 = stopping"
    "m_yet_to_stop_nthreads s3 = m_yet_to_stop_nthreads s + 1"
    by (simp_all add: stop_begin_def Let_def set_state_def)
  from assms sm f have "if m_yet_to_stop_nthreads s = 0
               then s6 = set_state stopped (s3\<lparr>m_global_timer := None, m_yet_to_stop_nthreads := 0\<rparr>)
               else wait_to_be_stopped env
                      (s3\<lparr>m_global_timer := None,
                          m_yet_to_stop_nthreads := m_yet_to_stop_nthreads s\<rparr>) = Some s6"
    by (auto simp: stop_latch_def Let_def stop_begin_def Let_def set_state_def split: option.splits if_splits)
  with sm f show ?thesis by blast
qed

lemma wait_for_state_timer:
  "wait_for_state st env s = Some s' \<Longrightarrow> m_global_timer s' = m_global_timer s"
proof (induction env arbitrary: s)
  case Nil
  then show ?case by (auto split: if_splits)
next
  case (Cons e es)
  have "m_global_timer (env_step e s) = m_global_timer s"
    by (cases e) (simp_all add: io_thread_started_def io_thread_stopped_def add_interface_def
          Let_def set_state_and_notify_def)
  with Cons show ?case by (auto split: if_splits)
qed

lemma stop_latch_stopped:
  assumes "stop_latch env s = Some s6"
  shows "m_state s6 = stopped \<and> m_global_timer s6 = None"
proof -
  from stop_latch_cases[OF assms] obtain cnt s3 where
    c: "if m_yet_to_stop_nthreads s = 0
               then s6 = set_state stopped (s3\<lparr>m_global_timer := None, m_yet_to_stop_nthreads := 0\<rparr>)
               else wait_to_be_stopped env
                      (s3\<lparr>m_global_timer := None,
                          m_yet_to_stop_nthreads := m_yet_to_stop_nthreads s\<rparr>) = Some s6"
    by blast
  show ?thesis
  proof (cases "m_yet_to_stop_nthreads s = 0")
    case True
    with c show ?thesis by (simp add: set_state_def)
  next
    case False
    with c have w: "wait_for_state stopped env
        (s3\<lparr>m_global_timer := None, m_yet_to_stop_nthreads := m_yet_to_stop_nthreads s\<rparr>) = Some s6"
      by (simp add: wait_to_be_stopped_def)
    from wait_for_state_Some[OF w] wait_for_state_timer[OF w] show ?thesis by simp
  qed
qed

lemma stop_Some:
  assumes "stop env joined s = Some s'"
  shows "m_state s' = stopped" "m_iface_list s' = []" "m_drive_ifaces s' = []"
    "m_global_timer s' = None" "m_iomgr_threads s' = []" "m_yet_to_start_nthreads s' = 0"
    "m_expected_ifaces s' = inbuilt_interface_count"
    "\<exists>s6. stop_latch env s = Some s6"
proof -
  from assms obtain s6 where l: "stop_latch env s = Some s6"
    and e: "s' = s6\<lparr>m_iomgr_threads := [], m_yet_to_start_nthreads := 0,
                     m_expected_ifaces := inbuilt_interface_count,
                     m_drive_ifaces := [], m_iface_list := []\<rparr>"
    by (auto simp: stop_def split: option.splits if_splits)
  from stop_latch_stopped[OF l] e show "m_state s' = stopped" "m_global_timer s' = None"
    by simp_all
  from e show "m_iface_list s' = []" "m_drive_ifaces s' = []" "m_iomgr_threads s' = []"
    "m_yet_to_start_nthreads s' = 0" "m_expected_ifaces s' = inbuilt_interface_count"
    by simp_all
  from l show "\<exists>s6. stop_latch env s = Some s6" by blast
qed














section \<open>Registering interfaces and the progression of the state\<close>

lemma add_interface_appends: "m_iface_list (add_interface i s) = m_iface_list s @ [i]"
  by (simp add: add_interface_def Let_def set_state_and_notify_def)

lemma add_interface_threads:
  assumes "length (m_iface_list s) + 1 = m_expected_ifaces s" and "0 < m_yet_to_start_nthreads s"
  shows "m_state (add_interface i s) = waiting_for_threads"
    and "m_iomgr_threads (add_interface i s)
           = m_iomgr_threads s @ replicate (nat (m_yet_to_start_nthreads s)) spawned_io_thread"
  using assms by (simp_all add: add_interface_def Let_def set_state_and_notify_def)

lemma add_interface_running:
  assumes "length (m_iface_list s) + 1 = m_expected_ifaces s" and "m_yet_to_start_nthreads s = 0"
  shows "m_state (add_interface i s) = running"
    and "m_iomgr_threads (add_interface i s) = m_iomgr_threads s"
  using assms by (simp_all add: add_interface_def Let_def set_state_and_notify_def)

lemma add_interface_other:
  assumes "length (m_iface_list s) + 1 \<noteq> m_expected_ifaces s"
  shows "m_state (add_interface i s) = m_state s"
    and "m_iomgr_threads (add_interface i s) = m_iomgr_threads s"
  using assms by (simp_all add: add_interface_def Let_def set_state_and_notify_def)

lemma add_interface_forward:
  assumes "m_state s = waiting_for_interfaces"
  shows "state_rank (m_state s) \<le> state_rank (m_state (add_interface i s))"
  using assms by (simp add: add_interface_def Let_def set_state_and_notify_def)

lemma io_thread_stopped_forward:
  "state_rank (m_state s) \<le> state_rank (m_state (io_thread_stopped s))"
  by (cases "m_state s") (simp_all add: io_thread_stopped_def Let_def set_state_and_notify_def)

lemma io_thread_started_forward:
  assumes "state_rank (m_state s) \<le> state_rank running"
  shows "state_rank (m_state s) \<le> state_rank (m_state (io_thread_started b s))"
  using assms by (simp add: io_thread_started_def Let_def set_state_and_notify_def)

lemma state_rank_stopped: "state_rank st \<le> state_rank stopped"
  by (cases st) simp_all

lemma add_interface_spawns:
  assumes "length (m_iface_list s) + 1 = m_expected_ifaces s" and "m_yet_to_start_nthreads s \<noteq> 0"
  shows "m_state (add_interface i s) = waiting_for_threads"
    and "m_iomgr_threads (add_interface i s)
           = m_iomgr_threads s @ replicate (nat (m_yet_to_start_nthreads s)) spawned_io_thread"
  using assms by (simp_all add: add_interface_def Let_def set_state_and_notify_def)

lemma add_interface_states:
  "m_state (add_interface i s) = m_state s
   \<or> m_state (add_interface i s) = waiting_for_threads
   \<or> m_state (add_interface i s) = running"
  by (simp add: add_interface_def Let_def set_state_and_notify_def)

lemma add_interface_forward_early:
  assumes "state_rank (m_state s) \<le> state_rank waiting_for_threads"
  shows "state_rank (m_state s) \<le> state_rank (m_state (add_interface i s))"
proof -
  from add_interface_states[of i s] consider
    "m_state (add_interface i s) = m_state s"
    | "m_state (add_interface i s) = waiting_for_threads"
    | "m_state (add_interface i s) = running"
    by blast
  then show ?thesis
  proof cases
    case 1
    then show ?thesis by simp
  next
    case 2
    with assms show ?thesis by simp
  next
    case 3
    with assms show ?thesis by simp
  qed
qed

lemma io_thread_started_states:
  "m_state (io_thread_started b s) = m_state s \<or> m_state (io_thread_started b s) = running"
  by (simp add: io_thread_started_def Let_def set_state_and_notify_def)

lemma io_thread_stopped_states:
  "m_state (io_thread_stopped s) = m_state s \<or> m_state (io_thread_stopped s) = stopped"
  by (simp add: io_thread_stopped_def Let_def set_state_and_notify_def)

lemma add_interface_expected [simp]:
  "m_expected_ifaces (add_interface i s) = m_expected_ifaces s"
  by (simp add: add_interface_def Let_def set_state_and_notify_def)

lemma registration_inv_add_interface:
  assumes "registration_inv s"
  shows "registration_inv (add_interface i s)"
    and "state_rank (m_state s) \<le> state_rank (m_state (add_interface i s))"
proof -
  show "registration_inv (add_interface i s)"
  proof (cases "m_expected_ifaces s \<le> length (m_iface_list s)")
    case True
    then show ?thesis by (simp add: registration_inv_def add_interface_appends)
  next
    case False
    with assms have w: "m_state s = waiting_for_interfaces" by (simp add: registration_inv_def)
    show ?thesis
    proof (cases "length (m_iface_list s) + 1 = m_expected_ifaces s")
      case True
      then show ?thesis by (simp add: registration_inv_def add_interface_appends)
    next
      case False
      from add_interface_other(1)[OF False] w show ?thesis by (simp add: registration_inv_def)
    qed
  qed
  show "state_rank (m_state s) \<le> state_rank (m_state (add_interface i s))"
  proof (cases "m_state s = waiting_for_interfaces")
    case True
    then show ?thesis by (rule add_interface_forward)
  next
    case False
    with assms have "m_expected_ifaces s \<le> length (m_iface_list s)"
      by (simp add: registration_inv_def)
    then have "length (m_iface_list s) + 1 \<noteq> m_expected_ifaces s" by simp
    from add_interface_other(1)[OF this] show ?thesis by simp
  qed
qed

lemma registration_states_hd: "\<exists>rest. registration_states ifs s = s # rest"
  by (cases ifs) simp_all

lemma registration_states_sorted:
  "registration_inv s \<Longrightarrow>
     sorted (map (\<lambda>t. state_rank (m_state t)) (registration_states ifs s))"
proof (induction ifs arbitrary: s)
  case Nil
  then show ?case by simp
next
  case (Cons i ifs)
  note f = registration_inv_add_interface[OF Cons.prems, of i]
  obtain rest where r: "registration_states ifs (add_interface i s) = add_interface i s # rest"
    using registration_states_hd by blast
  from Cons.IH[OF f(1)] r
  have "sorted (state_rank (m_state (add_interface i s)) # map (\<lambda>t. state_rank (m_state t)) rest)"
    by simp
  with f(2) r show ?case by (auto intro: order_trans)
qed

lemma registration_inv_start: "registration_inv (start n k h s)"
proof -
  have "registration_inv (s\<lparr>m_expected_ifaces := (m_expected_ifaces s + n) mod 2 ^ 64,
          m_yet_to_start_nthreads := int k, m_common_thread_msg_handler := h,
          m_state := waiting_for_interfaces,
          m_default_general_iface := Some DefaultIOInterface\<rparr>)"
    by (simp add: registration_inv_def)
  from registration_inv_add_interface(1)[OF this, of DefaultIOInterface] show ?thesis
    by (simp add: start_def Let_def set_state_def)
qed

text \<open>
  C2, as the code has it. \<open>add_interface\<close> appends the interface. When the registry
  thereby reaches exactly the expected count, the state is set: to
  \<open>waiting_for_threads\<close>, with exactly as many threads spawned as the recorded count
  and each with \<open>is_iomgr_thread\<close> true, if that count is not zero, and to \<open>running\<close>
  if it is zero. At any other size, below or past the expected count, the state
  and the spawned threads stay as they are. The state after \<open>add_interface\<close> is the
  old one, \<open>waiting_for_threads\<close> or \<open>running\<close>, so a call in the states
  \<open>waiting_for_interfaces\<close> and \<open>waiting_for_threads\<close> does not move the state
  backwards; along any sequence of \<open>add_interface\<close> calls that follows a \<open>start\<close>, and
  along any that begins in \<open>waiting_for_interfaces\<close> or with the expected count
  reached, the state never moves backwards. \<open>io_thread_started\<close> leaves the state or
  sets \<open>running\<close>, and does not move it backwards up to \<open>running\<close>;
  \<open>io_thread_stopped\<close> leaves it or sets \<open>stopped\<close>, and \<open>stop\<close> ends in \<open>stopped\<close>:
  neither moves it backwards from any state.
\<close>

theorem add_interface_effect:
  "m_iface_list (add_interface i s) = m_iface_list s @ [i]
   \<and> (length (m_iface_list s) + 1 = m_expected_ifaces s \<and> m_yet_to_start_nthreads s \<noteq> 0 \<longrightarrow>
        m_state (add_interface i s) = waiting_for_threads
        \<and> m_iomgr_threads (add_interface i s)
            = m_iomgr_threads s @ replicate (nat (m_yet_to_start_nthreads s)) spawned_io_thread
        \<and> arg_is_iomgr_thread spawned_io_thread)
   \<and> (length (m_iface_list s) + 1 = m_expected_ifaces s \<and> m_yet_to_start_nthreads s = 0 \<longrightarrow>
        m_state (add_interface i s) = running
        \<and> m_iomgr_threads (add_interface i s) = m_iomgr_threads s)
   \<and> (length (m_iface_list s) + 1 \<noteq> m_expected_ifaces s \<longrightarrow>
        m_state (add_interface i s) = m_state s
        \<and> m_iomgr_threads (add_interface i s) = m_iomgr_threads s)
   \<and> (m_state (add_interface i s) = m_state s
        \<or> m_state (add_interface i s) = waiting_for_threads
        \<or> m_state (add_interface i s) = running)
   \<and> (state_rank (m_state s) \<le> state_rank waiting_for_threads \<longrightarrow>
        state_rank (m_state s) \<le> state_rank (m_state (add_interface i s)))
   \<and> sorted (map (\<lambda>t. state_rank (m_state t)) (registration_states ifs (start n k h s)))
   \<and> (m_state s = waiting_for_interfaces \<or> m_expected_ifaces s \<le> length (m_iface_list s) \<longrightarrow>
        sorted (map (\<lambda>t. state_rank (m_state t)) (registration_states ifs s)))
   \<and> (m_state (io_thread_started b s) = m_state s \<or> m_state (io_thread_started b s) = running)
   \<and> (state_rank (m_state s) \<le> state_rank running \<longrightarrow>
        state_rank (m_state s) \<le> state_rank (m_state (io_thread_started b s)))
   \<and> (m_state (io_thread_stopped s) = m_state s \<or> m_state (io_thread_stopped s) = stopped)
   \<and> state_rank (m_state s) \<le> state_rank (m_state (io_thread_stopped s))
   \<and> (stop env joined s = Some s' \<longrightarrow>
        m_state s' = stopped \<and> state_rank (m_state s) \<le> state_rank (m_state s'))"
proof (intro conjI impI)
  show "m_iface_list (add_interface i s) = m_iface_list s @ [i]"
    by (rule add_interface_appends)
next
  assume a: "length (m_iface_list s) + 1 = m_expected_ifaces s \<and> m_yet_to_start_nthreads s \<noteq> 0"
  note 1 = a[THEN conjunct1] and 2 = a[THEN conjunct2]
  from add_interface_spawns[OF 1 2]
  show "m_state (add_interface i s) = waiting_for_threads"
    "m_iomgr_threads (add_interface i s)
            = m_iomgr_threads s @ replicate (nat (m_yet_to_start_nthreads s)) spawned_io_thread"
    by simp_all
  show "arg_is_iomgr_thread spawned_io_thread" by (simp add: spawned_io_thread_def)
next
  assume a: "length (m_iface_list s) + 1 = m_expected_ifaces s \<and> m_yet_to_start_nthreads s = 0"
  note 1 = a[THEN conjunct1] and 2 = a[THEN conjunct2]
  from add_interface_running[OF 1 2]
  show "m_state (add_interface i s) = running"
    "m_iomgr_threads (add_interface i s) = m_iomgr_threads s"
    by simp_all
next
  assume a: "length (m_iface_list s) + 1 \<noteq> m_expected_ifaces s"
  from add_interface_other[OF a]
  show "m_state (add_interface i s) = m_state s"
    "m_iomgr_threads (add_interface i s) = m_iomgr_threads s"
    by simp_all
next
  show "m_state (add_interface i s) = m_state s
        \<or> m_state (add_interface i s) = waiting_for_threads
        \<or> m_state (add_interface i s) = running"
    by (rule add_interface_states)
next
  assume "state_rank (m_state s) \<le> state_rank waiting_for_threads"
  then show "state_rank (m_state s) \<le> state_rank (m_state (add_interface i s))"
    by (rule add_interface_forward_early)
next
  show "sorted (map (\<lambda>t. state_rank (m_state t)) (registration_states ifs (start n k h s)))"
    by (rule registration_states_sorted[OF registration_inv_start])
next
  assume "m_state s = waiting_for_interfaces \<or> m_expected_ifaces s \<le> length (m_iface_list s)"
  then have "registration_inv s" by (simp only: registration_inv_def)
  then show "sorted (map (\<lambda>t. state_rank (m_state t)) (registration_states ifs s))"
    by (rule registration_states_sorted)
next
  show "m_state (io_thread_started b s) = m_state s \<or> m_state (io_thread_started b s) = running"
    by (rule io_thread_started_states)
next
  assume "state_rank (m_state s) \<le> state_rank running"
  then show "state_rank (m_state s) \<le> state_rank (m_state (io_thread_started b s))"
    by (rule io_thread_started_forward)
next
  show "m_state (io_thread_stopped s) = m_state s \<or> m_state (io_thread_stopped s) = stopped"
    by (rule io_thread_stopped_states)
next
  show "state_rank (m_state s) \<le> state_rank (m_state (io_thread_stopped s))"
    by (rule io_thread_stopped_forward)
next
  assume h: "stop env joined s = Some s'"
  from stop_Some(1)[OF h] show "m_state s' = stopped" .
  then show "state_rank (m_state s) \<le> state_rank (m_state s')"
    by (simp only: state_rank_stopped)
qed

theorem add_interface_effect_witness:
  "m_state (add_interface (CustomIOInterface 1) example_expecting) = waiting_for_threads
   \<and> length (m_iomgr_threads (add_interface (CustomIOInterface 1) example_expecting)) = 3
   \<and> m_state (add_interface DefaultIOInterface example_iomgr) = running
   \<and> m_state (add_interface (CustomIOInterface 2)
        (add_interface (CustomIOInterface 1) example_expecting)) = waiting_for_threads
   \<and> length (m_iomgr_threads (add_interface (CustomIOInterface 2)
        (add_interface (CustomIOInterface 1) example_expecting))) = 3
   \<and> m_state example_waiting = waiting_for_threads
   \<and> state_rank (m_state example_waiting)
        \<le> state_rank (m_state (add_interface (CustomIOInterface 1) example_waiting))
   \<and> map m_state (registration_states [CustomIOInterface 1, CustomIOInterface 2]
                     (start 1 3 None example_iomgr))
        = [waiting_for_interfaces, waiting_for_threads, waiting_for_threads]
   \<and> sorted (map (\<lambda>t. state_rank (m_state t))
               (registration_states [CustomIOInterface 1, CustomIOInterface 2]
                  (start 1 3 None example_iomgr)))
   \<and> sorted (map (\<lambda>t. state_rank (m_state t))
               (registration_states [CustomIOInterface 1, CustomIOInterface 2] example_expecting))
   \<and> state_rank (m_state example_iomgr)
        \<le> state_rank (m_state (io_thread_started True example_iomgr))
   \<and> (\<exists>t. stop [] False example_iomgr = Some t \<and> m_state t = stopped)"
proof -
  note inst = add_interface_effect
  let ?s1 = "add_interface (CustomIOInterface 1) example_expecting"
  let ?ifs = "[CustomIOInterface 1, CustomIOInterface 2]"
  have h1: "length (m_iface_list example_expecting) + 1 = m_expected_ifaces example_expecting
      \<and> m_yet_to_start_nthreads example_expecting \<noteq> 0"
    by (simp add: example_expecting_def)
  from inst[of "CustomIOInterface 1" example_expecting "[]" 0 0 None True "[]" False example_expecting,
            THEN conjunct2, THEN conjunct1, THEN mp, OF h1]
  have a: "m_state ?s1 = waiting_for_threads"
    and b: "m_iomgr_threads ?s1 = m_iomgr_threads example_expecting
        @ replicate (nat (m_yet_to_start_nthreads example_expecting)) spawned_io_thread"
    by blast+
  from b have b': "length (m_iomgr_threads ?s1) = 3"
    by (simp add: example_expecting_def example_iomgr_def)
  have h2: "length (m_iface_list example_iomgr) + 1 = m_expected_ifaces example_iomgr
      \<and> m_yet_to_start_nthreads example_iomgr = 0"
    by (simp add: example_iomgr_def inbuilt_interface_count_def)
  from inst[of DefaultIOInterface example_iomgr "[]" 0 0 None True "[]" False example_iomgr,
            THEN conjunct2, THEN conjunct2, THEN conjunct1, THEN mp, OF h2]
  have c: "m_state (add_interface DefaultIOInterface example_iomgr) = running" by blast
  have "m_iface_list ?s1 = [DefaultIOInterface, CustomIOInterface 1]"
    "m_expected_ifaces ?s1 = 2"
    by (simp_all add: add_interface_def example_expecting_def Let_def set_state_and_notify_def)
  then have h3: "length (m_iface_list ?s1) + 1 \<noteq> m_expected_ifaces ?s1" by simp
  from inst[of "CustomIOInterface 2" ?s1 "[]" 0 0 None True "[]" False example_expecting,
            THEN conjunct2, THEN conjunct2, THEN conjunct2, THEN conjunct1, THEN mp, OF h3] a b'
  have d: "m_state (add_interface (CustomIOInterface 2) ?s1) = waiting_for_threads"
    and e: "length (m_iomgr_threads (add_interface (CustomIOInterface 2) ?s1)) = 3"
    by simp_all
  have w: "m_state example_waiting = waiting_for_threads" by (simp add: example_waiting_def)
  then have h6: "state_rank (m_state example_waiting) \<le> state_rank waiting_for_threads" by simp
  from inst[of "CustomIOInterface 1" example_waiting "[]" 0 0 None True "[]" False example_waiting,
            THEN conjunct2, THEN conjunct2, THEN conjunct2, THEN conjunct2, THEN conjunct2,
            THEN conjunct1, THEN mp, OF h6]
  have w': "state_rank (m_state example_waiting)
        \<le> state_rank (m_state (add_interface (CustomIOInterface 1) example_waiting))" .
  have m: "map m_state (registration_states ?ifs (start 1 3 None example_iomgr))
        = [waiting_for_interfaces, waiting_for_threads, waiting_for_threads]"
    by (simp add: start_def add_interface_def Let_def set_state_def set_state_and_notify_def
          example_iomgr_def inbuilt_interface_count_def)
  from inst[of DefaultIOInterface example_iomgr ?ifs 1 3 None True "[]" False example_iomgr,
            THEN conjunct2, THEN conjunct2, THEN conjunct2, THEN conjunct2, THEN conjunct2,
            THEN conjunct2, THEN conjunct1]
  have srt: "sorted (map (\<lambda>t. state_rank (m_state t))
               (registration_states ?ifs (start 1 3 None example_iomgr)))" .
  have h8: "m_state example_expecting = waiting_for_interfaces
      \<or> m_expected_ifaces example_expecting \<le> length (m_iface_list example_expecting)"
    by (simp add: example_expecting_def example_iomgr_def)
  from inst[of DefaultIOInterface example_expecting ?ifs 1 3 None True "[]" False example_iomgr,
            THEN conjunct2, THEN conjunct2, THEN conjunct2, THEN conjunct2, THEN conjunct2,
            THEN conjunct2, THEN conjunct2, THEN conjunct1, THEN mp, OF h8]
  have srt2: "sorted (map (\<lambda>t. state_rank (m_state t))
               (registration_states ?ifs example_expecting))" .
  have h5: "state_rank (m_state example_iomgr) \<le> state_rank running"
    by (simp add: example_iomgr_def)
  from inst[of DefaultIOInterface example_iomgr "[]" 0 0 None True "[]" False example_iomgr,
            THEN conjunct2, THEN conjunct2, THEN conjunct2, THEN conjunct2, THEN conjunct2,
            THEN conjunct2, THEN conjunct2, THEN conjunct2, THEN conjunct2,
            THEN conjunct1, THEN mp, OF h5]
  have f: "state_rank (m_state example_iomgr)
        \<le> state_rank (m_state (io_thread_started True example_iomgr))" .
  obtain t where t: "stop [] False example_iomgr = Some t"
    by (simp add: stop_def stop_latch_unfold stop_begin_def Let_def set_state_def
          send_msg_def example_iomgr_def)
  from inst[of DefaultIOInterface example_iomgr "[]" 0 0 None True "[]" False t,
            THEN conjunct2, THEN conjunct2, THEN conjunct2, THEN conjunct2, THEN conjunct2,
            THEN conjunct2, THEN conjunct2, THEN conjunct2, THEN conjunct2, THEN conjunct2,
            THEN conjunct2, THEN conjunct2, THEN mp, OF t]
  have "m_state t = stopped" by blast
  with t have g: "\<exists>t. stop [] False example_iomgr = Some t \<and> m_state t = stopped" by blast
  from a b' c d e w w' m srt srt2 f g show ?thesis by (intro conjI) assumption+
qed

text \<open>
  C2 as stated fails: \<open>start\<close> and \<open>add_interface\<close> set the state whatever it was.
  After \<open>start\<close> and \<open>stop\<close> the state is \<open>stopped\<close>, and one more \<open>add_interface\<close>,
  or a second \<open>start\<close>, moves it back to \<open>running\<close>.
\<close>

theorem state_moves_backwards_after_stop:
  "map_option m_state (iomgr_run [Op_start 0 0 None, Op_stop [] False] example_iomgr)
     = Some stopped
   \<and> map_option m_state
        (iomgr_run [Op_start 0 0 None, Op_stop [] False, Op_add_interface (CustomIOInterface 1)]
           example_iomgr)
     = Some running
   \<and> map_option m_state
        (iomgr_run [Op_start 0 0 None, Op_stop [] False, Op_start 0 0 None] example_iomgr)
     = Some running
   \<and> state_rank running < state_rank stopped"
  by (simp add: start_def add_interface_def stop_def stop_latch_unfold stop_begin_def Let_def
        set_state_def set_state_and_notify_def send_msg_def example_iomgr_def
        inbuilt_interface_count_def)

section \<open>Looking a descriptor up\<close>

lemma add_fd_global_entry:
  assumes "add_fd env self iface fdn cbk evm prio ck False s = Some (b, s')"
  shows "m_fd_info_map s' fdn \<noteq> None"
  using assms
  by (auto simp: add_fd_unfold Let_def map_insert_def split: option.splits if_splits)

text \<open>
  C10. \<open>fd_to_info\<close>, and with it \<open>fd_reschedule\<close> for a raw descriptor, has a
  defined result only for a descriptor that is in the global descriptor map: for
  one that is absent there is no fallback, and for one that is present the result
  is the record of the map. A global registration puts the descriptor into the map;
  a per-thread registration does not; and the removal of a global record takes its
  descriptor out again, after which the lookup is undefined.
\<close>

theorem fd_to_info_requires_entry:
  "(m_fd_info_map s fdn = None \<longrightarrow>
      fd_to_info s fdn = None \<and> fd_reschedule_fd sched fdn event s = None)
   \<and> (m_fd_info_map s fdn = Some a \<longrightarrow>
      fd_to_info s fdn = Some a
      \<and> fd_reschedule_fd sched fdn event s = fd_reschedule sched a event s)
   \<and> (add_fd env self iface fdn cbk evm prio ck False s = Some (b, s') \<longrightarrow>
      fd_to_info s' fdn \<noteq> None)
   \<and> (add_fd env self iface fdn cbk evm prio ck True s = Some (b, s') \<longrightarrow>
      fd_to_info s' fdn = fd_to_info s fdn)
   \<and> ((m_state s = running \<or> m_state s = stopping)
        \<and> fd_info_at s info = Some r \<and> is_global r
        \<and> remove_fd self iface info ctx s = Some s' \<longrightarrow>
      fd_to_info s' (fd r) = None \<and> fd_reschedule_fd sched (fd r) event s' = None)"
proof (intro conjI impI)
  assume "m_fd_info_map s fdn = None"
  then show "fd_to_info s fdn = None" "fd_reschedule_fd sched fdn event s = None"
    by (simp_all add: fd_to_info_def fd_reschedule_fd_def)
next
  assume "m_fd_info_map s fdn = Some a"
  then show "fd_to_info s fdn = Some a"
    "fd_reschedule_fd sched fdn event s = fd_reschedule sched a event s"
    by (simp_all add: fd_to_info_def fd_reschedule_fd_def)
next
  assume h: "add_fd env self iface fdn cbk evm prio ck False s = Some (b, s')"
  from add_fd_global_entry[OF h] show "fd_to_info s' fdn \<noteq> None"
    by (simp add: fd_to_info_def split: option.splits)
next
  assume h: "add_fd env self iface fdn cbk evm prio ck True s = Some (b, s')"
  with add_fd_per_thread[of env self iface fdn cbk evm prio ck s]
  have "m_fd_info_map s' = m_fd_info_map s" by auto
  then show "fd_to_info s' fdn = fd_to_info s fdn" by (simp add: fd_to_info_def)
next
  assume a: "(m_state s = running \<or> m_state s = stopping)
        \<and> fd_info_at s info = Some r \<and> is_global r
        \<and> remove_fd self iface info ctx s = Some s'"
  then have a1: "m_state s = running \<or> m_state s = stopping"
    and a2: "fd_info_at s info = Some r" and a3: "is_global r"
    and a4: "remove_fd self iface info ctx s = Some s'"
    by blast+
  from remove_fd_global[OF a1 a2 a3, of self iface ctx] a4
  have "m_fd_info_map s' (fd r) = None" by auto
  then show "fd_to_info s' (fd r) = None" "fd_reschedule_fd sched (fd r) event s' = None"
    by (simp_all add: fd_to_info_def fd_reschedule_fd_def)
qed

theorem fd_to_info_requires_entry_witness:
  "fd_to_info example_iomgr 5 = None
   \<and> fd_reschedule_fd [] 5 1 example_iomgr = None
   \<and> fd_to_info example_registered 5 = Some 0
   \<and> (\<exists>b t. add_fd [] 0 0 6 0 1 9 0 False example_registered = Some (b, t)
         \<and> fd_to_info t 6 \<noteq> None)
   \<and> (\<exists>b t. add_fd [] 0 0 6 0 1 9 0 True example_registered = Some (b, t)
         \<and> fd_to_info t 6 = None)
   \<and> (\<exists>t. remove_fd 0 0 0 None example_registered = Some t
         \<and> fd_to_info t 5 = None \<and> fd_reschedule_fd [] 5 1 t = None)"
proof -
  note inst = fd_to_info_requires_entry
  have h1: "m_fd_info_map example_iomgr 5 = None" by (simp add: example_iomgr_def)
  from inst[where s = example_iomgr and fdn = 5 and sched = "[]" and event = 1,
            THEN conjunct1, THEN mp, OF h1]
  have 1: "fd_to_info example_iomgr 5 = None \<and> fd_reschedule_fd [] 5 1 example_iomgr = None" .
  have h2: "m_fd_info_map example_registered 5 = Some 0" by (simp add: example_registered_def)
  from inst[where s = example_registered and fdn = 5 and a = 0,
            THEN conjunct2, THEN conjunct1, THEN mp, OF h2]
  have 2: "fd_to_info example_registered 5 = Some 0" by blast
  obtain b t where h3: "add_fd [] 0 0 6 0 1 9 0 False example_registered = Some (b, t)"
    by (simp add: add_fd_unfold Let_def example_registered_def)
  from inst[where s = example_registered and fdn = 6 and env = "[]" and self = 0 and iface = 0
              and cbk = 0 and evm = 1 and prio = 9 and ck = 0 and b = b and s' = t,
            THEN conjunct2, THEN conjunct2, THEN conjunct1, THEN mp, OF h3] h3
  have 3: "\<exists>b t. add_fd [] 0 0 6 0 1 9 0 False example_registered = Some (b, t)
         \<and> fd_to_info t 6 \<noteq> None"
    by blast
  obtain c u where h4: "add_fd [] 0 0 6 0 1 9 0 True example_registered = Some (c, u)"
    by (simp add: add_fd_unfold Let_def)
  have n6: "fd_to_info example_registered 6 = None"
    by (simp add: fd_to_info_def example_registered_def)
  from inst[where s = example_registered and fdn = 6 and env = "[]" and self = 0 and iface = 0
              and cbk = 0 and evm = 1 and prio = 9 and ck = 0 and b = c and s' = u,
            THEN conjunct2, THEN conjunct2, THEN conjunct2, THEN conjunct1, THEN mp, OF h4] h4 n6
  have 4: "\<exists>b t. add_fd [] 0 0 6 0 1 9 0 True example_registered = Some (b, t)
         \<and> fd_to_info t 6 = None"
    by auto
  obtain v where r: "remove_fd 0 0 0 None example_registered = Some v"
    by (simp add: remove_fd_def get_state_def example_registered_def fd_info_at_def
          example_record_def Let_def)
  have h5: "(m_state example_registered = running \<or> m_state example_registered = stopping)
        \<and> fd_info_at example_registered 0 = Some example_record \<and> is_global example_record
        \<and> remove_fd 0 0 0 None example_registered = Some v"
    using r by (simp add: example_registered_def fd_info_at_def example_record_def)
  from inst[where s = example_registered and sched = "[]" and event = 1 and self = 0 and iface = 0
              and info = 0 and r = example_record and ctx = None and s' = v,
            THEN conjunct2, THEN conjunct2, THEN conjunct2, THEN conjunct2, THEN mp, OF h5]
  have "fd_to_info v (fd example_record) = None
      \<and> fd_reschedule_fd [] (fd example_record) 1 v = None" .
  then have "fd_to_info v 5 = None \<and> fd_reschedule_fd [] 5 1 v = None"
    by (simp add: example_record_def)
  with r have 5: "\<exists>t. remove_fd 0 0 0 None example_registered = Some t
         \<and> fd_to_info t 5 = None \<and> fd_reschedule_fd [] 5 1 t = None"
    by blast
  from 1 2 3 4 5 show ?thesis by blast
qed

end
